theory Spec2Isabelle
  imports Complex_Main "HOL-Library.Word" "HOL-Library.Multiset"
    "HOL-Library.List_Lexorder" "HOL-Library.Char_ord"
begin

section \<open>Data model of main.go\<close>

text \<open>
  Go's \<open>int\<close> is a 64-bit two's complement integer on the platforms the program targets:
  ratings, vote counts and thresholds are \<open>64 word\<close>, compared with the signed orders
  \<open>\<le>s\<close> and \<open><s\<close> and read with \<open>sint\<close>. Lengths and indices of slices are \<open>nat\<close>
  (they never leave \<open>0 .. 2^63 - 1\<close>, so \<open>len\<close> as an \<open>int\<close> is \<open>of_nat\<close> of the
  length). A \<open>float64\<close> is modelled by the real number it denotes and
  \<open>float64(a) / float64(b)\<close> by the exact quotient: the program never produces a NaN,
  and the theorems below use only the order of scores, the equality of two quotients with
  equal operands, and sample values on which the rounded and the exact quotient agree
  (\<open>0\<close>, \<open>4\<close>, \<open>7.5\<close>, \<open>80\<close>). Where a theorem gives a score as a quotient of a sum
  and a length, the program returns that quotient rounded to the nearest \<open>float64\<close>. A Go \<open>string\<close> is a sequence of bytes, compared
  bytewise: \<open>string\<close> with the lexicographic order on \<open>char list\<close>. Output written to
  the terminal is not modelled.
\<close>

type_synonym go_int = "64 word"

record Movie =
  URL :: string
  Rating :: go_int

record MovieWithRatings =
  URL :: string
  Ratings :: "go_int list"

record Result =
  AvgRating :: real
  VoteCount :: go_int
  URL :: string
  Ratings :: "go_int list"

section \<open>Scoring helpers: \<open>avg\<close> and \<open>weighted\<close>\<close>

text \<open>The loop \<open>for _, v := range list { sum += v }\<close> (the running \<open>sum\<close> is \<open>acc\<close>
  here); the addition wraps at 64 bits.\<close>

fun avg_sum :: "go_int list \<Rightarrow> go_int \<Rightarrow> go_int" where
  "avg_sum [] acc = acc"
| "avg_sum (v # vs) acc = avg_sum vs (acc + v)"

definition avg :: "go_int list \<Rightarrow> real" where
  "avg list =
     (if length list = 0 then 0
      else real_of_int (sint (avg_sum list 0)) / real (length list))"

definition weights :: "go_int list" where
  "weights = [100, 95, 80, 65, 40, 20, 5, 0, 0, 0]"

text \<open>
  The loop of \<open>weighted\<close>: \<open>wList\<close> grows by \<open>weights[i]\<close> for every \<open>i\<close> with
  \<open>i >= 0 && i < len(weights)\<close>; any other rating is skipped.
\<close>

fun weighted_loop :: "go_int list \<Rightarrow> go_int list \<Rightarrow> go_int list" where
  "weighted_loop [] wList = wList"
| "weighted_loop (i # is) wList =
     (if 0 \<le>s i \<and> i <s of_nat (length weights)
      then weighted_loop is (wList @ [weights ! nat (sint i)])
      else weighted_loop is wList)"

definition weighted :: "go_int list \<Rightarrow> real" where
  "weighted list = (if length list = 0 then 0 else avg (weighted_loop list []))"

section \<open>The worker count of \<open>collectMoviesParallel\<close>\<close>

text \<open>
  Lines 557 to 564: \<open>len(friends) / 3 + 1\<close>, then the two \<open>if\<close> statements in their
  order. The operands are not negative, so Go's truncating division is \<open>div\<close>.
\<close>

definition numWorkers :: "string list \<Rightarrow> int" where
  "numWorkers friends =
     (let numWorkers = int (length friends) div 3 + 1;
          numWorkers = (if numWorkers > 12 then 12 else numWorkers);
          numWorkers = (if numWorkers < 2 then int (length friends) else numWorkers)
      in numWorkers)"

section \<open>The threshold filter of \<open>showResults\<close>\<close>

text \<open>
  Lines 456 to 462: \<open>moviesFiltered\<close> starts empty and every movie of \<open>moviesList\<close> with
  \<open>movie.VoteCount >= threshold\<close> is appended to it, in order.
\<close>

fun showResults_filter_loop :: "go_int \<Rightarrow> Result list \<Rightarrow> Result list \<Rightarrow> Result list" where
  "showResults_filter_loop threshold [] moviesFiltered = moviesFiltered"
| "showResults_filter_loop threshold (movie # rest) moviesFiltered =
     (if threshold \<le>s VoteCount movie
      then showResults_filter_loop threshold rest (moviesFiltered @ [movie])
      else showResults_filter_loop threshold rest moviesFiltered)"

definition showResults_filter :: "go_int \<Rightarrow> Result list \<Rightarrow> Result list" where
  "showResults_filter threshold moviesList = showResults_filter_loop threshold moviesList []"

text \<open>
  The mapped list as the specification describes it: the ratings of the domain \<open>0..9\<close>,
  each replaced by its entry of the table. It is compared with the loop below.
\<close>

definition weighted_mapped :: "go_int list \<Rightarrow> go_int list" where
  "weighted_mapped list =
     map (\<lambda>i. weights ! nat (sint i)) (filter (\<lambda>i. 0 \<le> sint i \<and> sint i \<le> 9) list)"

section \<open>Sorting with \<open>sort.Slice\<close>\<close>

text \<open>
  \<open>sort.Slice\<close> belongs to Go's standard library, not to this repository, and is not
  stable. A function of the program that calls it takes the sorting procedure as its first
  argument \<open>srt\<close>; what the library promises for a call with the comparison \<open>lt\<close> is
  \<open>sort_Slice_post\<close>: the result is a permutation of the input and no element is
  \<open>lt\<close> an earlier one. Theorems assume \<open>sort_Slice_post\<close> of the call they are about
  and nothing else of \<open>srt\<close>.
\<close>

type_synonym 'a sorter = "('a \<Rightarrow> 'a \<Rightarrow> bool) \<Rightarrow> 'a list \<Rightarrow> 'a list"

definition sort_Slice_post :: "('a \<Rightarrow> 'a \<Rightarrow> bool) \<Rightarrow> 'a list \<Rightarrow> 'a list \<Rightarrow> bool" where
  "sort_Slice_post lt xs ys \<longleftrightarrow> mset ys = mset xs \<and> sorted_wrt (\<lambda>a b. \<not> lt b a) ys"

text \<open>
  One sorting procedure that meets \<open>sort_Slice_post\<close>, for the sample runs: insertion
  sort, which is what Go's \<open>sort.Slice\<close> runs on a slice of at most 12 elements (each
  element moves left past the elements it is \<open>lt\<close>). \<open>insertLess\<close> works on the
  reversed prefix.
\<close>

fun insertLess :: "('a \<Rightarrow> 'a \<Rightarrow> bool) \<Rightarrow> 'a \<Rightarrow> 'a list \<Rightarrow> 'a list" where
  "insertLess lt x [] = [x]"
| "insertLess lt x (y # ys) = (if lt x y then y # insertLess lt x ys else x # y # ys)"

definition insertionSort :: "'a sorter" where
  "insertionSort lt xs = rev (foldl (\<lambda>pre x. insertLess lt x pre) [] xs)"

section \<open>\<open>mergeMovies\<close> and \<open>processResults\<close>\<close>

text \<open>The comparison handed to \<open>sort.Slice\<close>: \<open>movies[i].URL < movies[j].URL\<close>.\<close>

definition mergeMovies_less :: "Movie \<Rightarrow> Movie \<Rightarrow> bool" where
  "mergeMovies_less a b \<longleftrightarrow> Movie.URL a < Movie.URL b"

text \<open>
  The inner loop \<open>for j < len(movies) && movies[j].URL == movie.URL\<close>: it returns the
  final \<open>j\<close> and the collected \<open>ratings\<close>.
\<close>

function mergeMovies_inner :: "Movie list \<Rightarrow> Movie \<Rightarrow> nat \<Rightarrow> go_int list \<Rightarrow> nat \<times> go_int list" where
  "mergeMovies_inner movies movie j ratings =
     (if j < length movies \<and> Movie.URL (movies ! j) = Movie.URL movie
      then mergeMovies_inner movies movie (j + 1) (ratings @ [Rating (movies ! j)])
      else (j, ratings))"
  by pat_completeness auto
termination
  by (relation "measure (\<lambda>(movies, movie, j, ratings). length movies - j)") auto

declare mergeMovies_inner.simps [simp del]

lemma mergeMovies_inner_ge: "j \<le> fst (mergeMovies_inner movies movie j ratings)"
proof (induction movies movie j ratings rule: mergeMovies_inner.induct)
  case (1 movies movie j ratings)
  show ?case
  proof (cases "j < length movies \<and> Movie.URL (movies ! j) = Movie.URL movie")
    case True
    then have "j + 1 \<le> fst (mergeMovies_inner movies movie (j + 1) (ratings @ [Rating (movies ! j)]))"
      using "1.IH" by blast
    then show ?thesis
      using True by (subst mergeMovies_inner.simps) simp
  next
    case False
    then show ?thesis
      by (subst mergeMovies_inner.simps) auto
  qed
qed

text \<open>
  The outer loop \<open>for i < len(movies)\<close>; \<open>jr\<close> is the pair of \<open>j\<close> and \<open>ratings\<close> after
  the inner loop, and \<open>i = j\<close> for the next round.
\<close>

function mergeMovies_outer :: "Movie list \<Rightarrow> nat \<Rightarrow> MovieWithRatings list \<Rightarrow> MovieWithRatings list" where
  "mergeMovies_outer movies i uniqueMovies =
     (if i < length movies
      then (let movie = movies ! i;
                jr = mergeMovies_inner movies movie (i + 1) [Rating movie]
            in mergeMovies_outer movies (fst jr)
                 (uniqueMovies @ [\<lparr>MovieWithRatings.URL = Movie.URL movie, Ratings = snd jr\<rparr>]))
      else uniqueMovies)"
  by pat_completeness auto
termination
proof (relation "measure (\<lambda>(movies, i, uniqueMovies). length movies - i)")
  show "wf (measure (\<lambda>(movies, i, uniqueMovies). length movies - i))"
    by simp
next
  fix movies :: "Movie list" and i :: nat and uniqueMovies :: "MovieWithRatings list" and movie jr
  assume "i < length movies" and "movie = movies ! i"
    and "jr = mergeMovies_inner movies movie (i + 1) [Rating movie]"
  then show "((movies, fst jr, uniqueMovies @ [\<lparr>MovieWithRatings.URL = Movie.URL movie, Ratings = snd jr\<rparr>]),
              (movies, i, uniqueMovies)) \<in> measure (\<lambda>(movies, i, uniqueMovies). length movies - i)"
    using mergeMovies_inner_ge [of "i + 1" movies movie "[Rating movie]"] by simp
qed

declare mergeMovies_outer.simps [simp del]

definition mergeMovies :: "Movie sorter \<Rightarrow> Movie list \<Rightarrow> MovieWithRatings list" where
  "mergeMovies srt movies = mergeMovies_outer (srt mergeMovies_less movies) 0 []"

fun processResults_loop :: "MovieWithRatings list \<Rightarrow> Result list \<Rightarrow> Result list" where
  "processResults_loop [] results = results"
| "processResults_loop (movie # rest) results =
     processResults_loop rest
       (results @ [\<lparr>AvgRating = avg (MovieWithRatings.Ratings movie),
                    VoteCount = of_nat (length (MovieWithRatings.Ratings movie)),
                    URL = MovieWithRatings.URL movie,
                    Ratings = MovieWithRatings.Ratings movie\<rparr>])"

definition processResults :: "MovieWithRatings list \<Rightarrow> Result list" where
  "processResults uniqueMovies = processResults_loop uniqueMovies []"

text \<open>
  The grouping read off a sorted list, run by run: the loops of \<open>mergeMovies\<close> compute it
  (\<open>mergeMovies_outer_eq\<close> below), and the properties of the groups are proved on it.
\<close>

function groupRuns :: "Movie list \<Rightarrow> MovieWithRatings list" where
  "groupRuns [] = []"
| "groupRuns (m # ms) =
     \<lparr>MovieWithRatings.URL = Movie.URL m,
      Ratings = Rating m # map Rating (takeWhile (\<lambda>x. Movie.URL x = Movie.URL m) ms)\<rparr>
     # groupRuns (dropWhile (\<lambda>x. Movie.URL x = Movie.URL m) ms)"
  by pat_completeness auto
termination
  by (relation "measure length") (auto simp: length_dropWhile_le le_imp_less_Suc)

text \<open>The triple (itemKey, score, observationCount) of a result.\<close>

definition scoredTriple :: "Result \<Rightarrow> string \<times> real \<times> go_int" where
  "scoredTriple r = (Result.URL r, AvgRating r, VoteCount r)"

section \<open>The sort of \<open>showResults\<close>\<close>

text \<open>
  Lines 464 to 470: the comparison handed to \<open>sort.Slice\<close> reads \<open>AvgRating\<close> and, when
  the two are equal, \<open>VoteCount\<close>; it never reads \<open>URL\<close>.
\<close>

definition showResults_less :: "Result \<Rightarrow> Result \<Rightarrow> bool" where
  "showResults_less a b =
     (if AvgRating a \<noteq> AvgRating b then AvgRating a > AvgRating b
      else VoteCount b <s VoteCount a)"

definition showResults_sort :: "Result sorter \<Rightarrow> Result list \<Rightarrow> Result list" where
  "showResults_sort srt moviesFiltered = srt showResults_less moviesFiltered"

text \<open>
  Two orders on results, to state what the sort achieves: by score descending and then by
  count descending; and the same with a last tie-break by key ascending, as the
  specification words it.
\<close>

definition ranked_by_score_count :: "Result list \<Rightarrow> bool" where
  "ranked_by_score_count rs =
     sorted_wrt (\<lambda>a b. AvgRating b < AvgRating a
                      \<or> (AvgRating a = AvgRating b \<and> VoteCount b \<le>s VoteCount a)) rs"

definition ranked_by_score_count_key :: "Result list \<Rightarrow> bool" where
  "ranked_by_score_count_key rs =
     sorted_wrt (\<lambda>a b. AvgRating b < AvgRating a
                      \<or> (AvgRating a = AvgRating b
                          \<and> (VoteCount b <s VoteCount a
                              \<or> (VoteCount a = VoteCount b \<and> Result.URL a \<le> Result.URL b)))) rs"

section \<open>The remote platform: pages and the network\<close>

text \<open>
  The program reads a page through goquery selectors only. A page is modelled by what
  those selectors return: for each \<open>li.poster-container\<close> the \<open>data-target-link\<close> attribute
  of its first \<open>div\<close> (if any) and the \<open>class\<close> attributes of the elements matched by
  \<open>p span.rating\<close>; the \<open>href\<close> of \<open>div.pagination a.next\<close>; for each
  \<open>td.table-person\<close> the \<open>href\<close> of its \<open>h3 a\<close>; the number of elements matched by
  \<open>body header section\<close>; and the text of the parent of \<open>span.replace-if-you\<close>.
\<close>

record Poster =
  targetLink :: "string option"
  ratingSpans :: "string option list"

record Document =
  posters :: "Poster list"
  paginationNext :: "string option"
  persons :: "string option list"
  headerSections :: nat
  replaceIfYouText :: string

text \<open>
  One call of \<open>client.Get\<close> either returns an error (a transport error or the timeout of
  10 seconds), or a response with a status code; \<open>goquery.NewDocumentFromReader\<close> then
  yields a document or an error (\<open>None\<close>): it fails when the body cannot be read, which is
  again an error of the transport (a broken connection, or the timeout while reading). The network is an oracle: the outcome of a
  request is a function of the requests made so far (\<open>reqs\<close>, the URLs in order) and of
  the URL requested. Every function that fetches takes the request log and returns the
  extended one, so that what was fetched, and in which order, can be stated.
\<close>

datatype outcome = TransportError | Response int "Document option"

type_synonym net = "string list \<Rightarrow> string \<Rightarrow> outcome"

section \<open>\<open>getPage\<close>\<close>

text \<open>
  The loop \<open>for retry := 0; retry < 10; retry++\<close>: a response with status 200 returns
  the parsed body at once (a document, or the parse error as \<open>None\<close>); any other outcome
  leads to the next round; after the tenth round the error \<open>no connection available\<close> is
  returned (\<open>None\<close>). The pause of one second between attempts is not modelled.
\<close>

function getPage_loop :: "net \<Rightarrow> string \<Rightarrow> nat \<Rightarrow> string list \<Rightarrow> Document option \<times> string list" where
  "getPage_loop net url retry reqs =
     (if retry < 10
      then (case net reqs url of
              Response status doc \<Rightarrow>
                if status = 200 then (doc, reqs @ [url])
                else getPage_loop net url (retry + 1) (reqs @ [url])
            | TransportError \<Rightarrow> getPage_loop net url (retry + 1) (reqs @ [url]))
      else (None, reqs))"
  by pat_completeness auto
termination
  by (relation "measure (\<lambda>(net, url, retry, reqs). 10 - retry)") auto

declare getPage_loop.simps [simp del]

definition getPage :: "net \<Rightarrow> string \<Rightarrow> string list \<Rightarrow> Document option \<times> string list" where
  "getPage net url reqs = getPage_loop net url 0 reqs"

section \<open>Library functions on strings\<close>

text \<open>
  \<open>strings.Split\<close>, \<open>strings.ReplaceAll\<close> and \<open>strconv.Atoi\<close> of Go's standard library,
  for the arguments the program passes them: a separator and a pattern that are not empty.
  \<open>Split\<close> cuts at every occurrence of the separator, left to right and without overlap,
  and always returns at least one piece; \<open>ReplaceAll\<close> replaces the occurrences found the
  same way. \<open>Atoi\<close> returns the value and whether the conversion succeeded: an optional
  sign, then at least one decimal digit and nothing else, and a value of 64 bits; on a
  value out of range the nearest bound comes with the error.
\<close>

function Split_from :: "string \<Rightarrow> string \<Rightarrow> string \<Rightarrow> string list" where
  "Split_from sep piece [] = [piece]"
| "Split_from sep piece (c # cs) =
     (if sep \<noteq> [] \<and> take (length sep) (c # cs) = sep
      then piece # Split_from sep [] (drop (length sep) (c # cs))
      else Split_from sep (piece @ [c]) cs)"
  by pat_completeness auto
termination
  by (relation "measure (\<lambda>(sep, piece, s). length s)") auto

definition Split :: "string \<Rightarrow> string \<Rightarrow> string list" where
  "Split s sep = Split_from sep [] s"

function ReplaceAll_from :: "string \<Rightarrow> string \<Rightarrow> string \<Rightarrow> string" where
  "ReplaceAll_from old new [] = []"
| "ReplaceAll_from old new (c # cs) =
     (if old \<noteq> [] \<and> take (length old) (c # cs) = old
      then new @ ReplaceAll_from old new (drop (length old) (c # cs))
      else c # ReplaceAll_from old new cs)"
  by pat_completeness auto
termination
  by (relation "measure (\<lambda>(old, new, s). length s)") auto

definition ReplaceAll :: "string \<Rightarrow> string \<Rightarrow> string \<Rightarrow> string" where
  "ReplaceAll s old new = ReplaceAll_from old new s"

definition isDigit :: "char \<Rightarrow> bool" where
  "isDigit c \<longleftrightarrow> CHR ''0'' \<le> c \<and> c \<le> CHR ''9''"

fun digitsValue :: "string \<Rightarrow> nat \<Rightarrow> nat" where
  "digitsValue [] n = n"
| "digitsValue (c # cs) n = digitsValue cs (10 * n + (of_char c - 48))"

definition Atoi :: "string \<Rightarrow> go_int \<times> bool" where
  "Atoi s =
     (let neg = (s \<noteq> [] \<and> hd s = CHR ''-'');
          ds = (if s \<noteq> [] \<and> (hd s = CHR ''-'' \<or> hd s = CHR ''+'') then tl s else s)
      in if ds = [] \<or> \<not> list_all isDigit ds then (0, False)
         else if \<not> neg \<and> 2 ^ 63 \<le> digitsValue ds 0 then (2 ^ 63 - 1, False)
         else if neg \<and> 2 ^ 63 < digitsValue ds 0 then (- (2 ^ 63), False)
         else if neg then (- of_nat (digitsValue ds 0), True)
         else (of_nat (digitsValue ds 0), True))"

section \<open>The crawls: \<open>getRatedMovies\<close>, \<open>getAllMovies\<close> and \<open>findFollowing\<close>\<close>

text \<open>
  \<open>excludeMap\<close> of \<open>getRatedMovies\<close>: the keys of \<open>excludeMovies\<close> are set to true, and a
  key that is absent reads as false.
\<close>

fun excludeMap_of :: "string list \<Rightarrow> (string \<Rightarrow> bool) \<Rightarrow> (string \<Rightarrow> bool)" where
  "excludeMap_of [] excludeMap = excludeMap"
| "excludeMap_of (m # ms) excludeMap = excludeMap_of ms (excludeMap(m := True))"

text \<open>
  The function passed to \<open>Each\<close> in \<open>getRatedMovies\<close>, on the pair of \<open>movies\<close> and
  \<open>moviesOnPage\<close>: an entry without target link or without rating element changes
  nothing; otherwise \<open>moviesOnPage\<close> is set, and only then is the rating parsed out of the
  last word of the class attribute and the movie appended unless it is excluded.
\<close>

definition getRatedMovies_each ::
  "(string \<Rightarrow> bool) \<Rightarrow> Movie list \<times> bool \<Rightarrow> Poster \<Rightarrow> Movie list \<times> bool" where
  "getRatedMovies_each excludeMap st s =
     (case targetLink s of
        None \<Rightarrow> st
      | Some newTitle \<Rightarrow>
          if length (ratingSpans s) = 0 then st
          else (case hd (ratingSpans s) of
                  None \<Rightarrow> (fst st, True)
                | Some ratingClass \<Rightarrow>
                    (let parts = Split ratingClass '' '';
                         ratingStr = ReplaceAll (parts ! (length parts - 1)) ''rated-'' [];
                         rating = Atoi ratingStr
                     in if \<not> snd rating then (fst st, True)
                        else if \<not> excludeMap newTitle
                        then (fst st @ [\<lparr>Movie.URL = newTitle, Rating = fst rating\<rparr>], True)
                        else (fst st, True))))"

text \<open>
  The loop \<open>for { ... }\<close> of \<open>getRatedMovies\<close>. Pagination may never end, so the loop is a
  partial function: \<open>None\<close> stands for a crawl that does not return. A failed fetch, a
  page without rated entry and a page without next link each end the crawl with the
  movies collected so far.
\<close>

partial_function (option) getRatedMovies_loop ::
  "net \<Rightarrow> (string \<Rightarrow> bool) \<Rightarrow> string \<Rightarrow> Movie list \<Rightarrow> string list
     \<Rightarrow> (Movie list \<times> string list) option" where
  "getRatedMovies_loop net excludeMap url movies reqs =
     (case getPage net url reqs of
        (None, reqs') \<Rightarrow> Some (movies, reqs')
      | (Some doc, reqs') \<Rightarrow>
          (case foldl (getRatedMovies_each excludeMap) (movies, False) (posters doc) of
             (movies', moviesOnPage) \<Rightarrow>
               if \<not> moviesOnPage then Some (movies', reqs')
               else (case paginationNext doc of
                       None \<Rightarrow> Some (movies', reqs')
                     | Some nextLink \<Rightarrow>
                         getRatedMovies_loop net excludeMap
                           (''https://letterboxd.com'' @ nextLink) movies' reqs')))"

definition getRatedMovies ::
  "net \<Rightarrow> string \<Rightarrow> string list \<Rightarrow> string list \<Rightarrow> (Movie list \<times> string list) option" where
  "getRatedMovies net username excludeMovies reqs =
     getRatedMovies_loop net (excludeMap_of excludeMovies (\<lambda>m. False))
       (''https://letterboxd.com/'' @ username @ ''/films/by/member-rating/'') [] reqs"

definition getAllMovies_each :: "string list \<Rightarrow> Poster \<Rightarrow> string list" where
  "getAllMovies_each movies s =
     (case targetLink s of None \<Rightarrow> movies | Some link \<Rightarrow> movies @ [link])"

partial_function (option) getAllMovies_loop ::
  "net \<Rightarrow> string \<Rightarrow> string list \<Rightarrow> string list \<Rightarrow> (string list \<times> string list) option" where
  "getAllMovies_loop net url movies reqs =
     (case getPage net url reqs of
        (None, reqs') \<Rightarrow> Some (movies, reqs')
      | (Some doc, reqs') \<Rightarrow>
          (case paginationNext doc of
             None \<Rightarrow> Some (foldl getAllMovies_each movies (posters doc), reqs')
           | Some nextLink \<Rightarrow>
               getAllMovies_loop net (''https://letterboxd.com'' @ nextLink)
                 (foldl getAllMovies_each movies (posters doc)) reqs'))"

definition getAllMovies :: "net \<Rightarrow> string \<Rightarrow> string list \<Rightarrow> (string list \<times> string list) option" where
  "getAllMovies net username reqs =
     getAllMovies_loop net (''https://letterboxd.com/'' @ username @ ''/films/'') [] reqs"

definition findFollowing_each :: "string list \<Rightarrow> string option \<Rightarrow> string list" where
  "findFollowing_each following h =
     (case h of None \<Rightarrow> following | Some href \<Rightarrow> following @ [ReplaceAll href ''/'' []])"

partial_function (option) findFollowing_loop ::
  "net \<Rightarrow> string \<Rightarrow> string list \<Rightarrow> string list \<Rightarrow> (string list \<times> string list) option" where
  "findFollowing_loop net url following reqs =
     (case getPage net url reqs of
        (None, reqs') \<Rightarrow> Some (following, reqs')
      | (Some doc, reqs') \<Rightarrow>
          (case paginationNext doc of
             None \<Rightarrow> Some (foldl findFollowing_each following (persons doc), reqs')
           | Some nextLink \<Rightarrow>
               findFollowing_loop net (''https://letterboxd.com'' @ nextLink)
                 (foldl findFollowing_each following (persons doc)) reqs'))"

definition findFollowing :: "net \<Rightarrow> string \<Rightarrow> string list \<Rightarrow> (string list \<times> string list) option" where
  "findFollowing net user reqs =
     findFollowing_loop net (''https://letterboxd.com/'' @ user @ ''/following/'') [] reqs"

section \<open>\<open>checkUser\<close> and \<open>getMovieCount\<close>\<close>

text \<open>
  \<open>checkUser\<close> iterates over the runes of the name without underscores; a byte outside
  ASCII belongs to a rune that is no letter or digit, so the test on bytes is the same.
\<close>

definition isAlnum :: "char \<Rightarrow> bool" where
  "isAlnum c \<longleftrightarrow> (CHR ''a'' \<le> c \<and> c \<le> CHR ''z'') \<or> (CHR ''A'' \<le> c \<and> c \<le> CHR ''Z'')
                 \<or> (CHR ''0'' \<le> c \<and> c \<le> CHR ''9'')"

definition checkUser :: "net \<Rightarrow> string \<Rightarrow> string list \<Rightarrow> (string \<times> bool) \<times> string list" where
  "checkUser net username reqs =
     (if \<not> list_all isAlnum (ReplaceAll username ''_'' []) then ((username, False), reqs)
      else (case getPage net (''https://letterboxd.com/'' @ username) reqs of
              (None, reqs') \<Rightarrow> ((username, False), reqs')
            | (Some doc, reqs') \<Rightarrow>
                if headerSections doc = 0 then ((username, False), reqs')
                else ((username, True), reqs')))"

function getMovieCount_loop ::
  "net \<Rightarrow> string list \<Rightarrow> nat \<Rightarrow> go_int list \<Rightarrow> string list \<Rightarrow> go_int list \<times> string list" where
  "getMovieCount_loop net friends i movieCount reqs =
     (if i < length friends
      then (case getPage net (''https://letterboxd.com/'' @ friends ! i @ ''/films/rated/.5-5/'') reqs of
              (None, reqs') \<Rightarrow> getMovieCount_loop net friends (i + 1) movieCount reqs'
            | (Some doc, reqs') \<Rightarrow>
                (let parts = Split (replaceIfYouText doc) ''has''
                 in if length parts < 2 then getMovieCount_loop net friends (i + 1) movieCount reqs'
                    else (let numb = filter isDigit (parts ! 1)
                          in if numb \<noteq> []
                             then getMovieCount_loop net friends (i + 1)
                                    (movieCount[i := fst (Atoi numb)]) reqs'
                             else getMovieCount_loop net friends (i + 1) movieCount reqs')))
      else (movieCount, reqs))"
  by pat_completeness auto
termination
  by (relation "measure (\<lambda>(net, friends, i, movieCount, reqs). length friends - i)") auto

declare getMovieCount_loop.simps [simp del]

definition getMovieCount :: "net \<Rightarrow> string list \<Rightarrow> string list \<Rightarrow> go_int list \<times> string list" where
  "getMovieCount net friends reqs =
     getMovieCount_loop net friends 0 (replicate (length friends) 0) reqs"

section \<open>\<open>collectMoviesParallel\<close>\<close>

text \<open>
  One goroutine per friend runs \<open>getRatedMovies\<close> and sends its result on the channel; the
  main goroutine appends what it receives, in the order of arrival, until the channel is
  closed. Two things of a run are not determined by the arguments and are parameters of
  the model: \<open>nets w\<close>, the network as the crawl of friend number \<open>w\<close> meets it (any
  interleaving of the requests of the other workers is one such oracle), and
  \<open>arrival\<close>, the order in which the workers deliver. A worker that never returns keeps
  the channel open, and the collection does not return (\<open>None\<close>). The semaphore bounds
  how many crawls run at a time and does not change what is collected.
\<close>

fun collectMoviesParallel_recv :: "Movie list option list \<Rightarrow> Movie list \<Rightarrow> Movie list option" where
  "collectMoviesParallel_recv [] allMovies = Some allMovies"
| "collectMoviesParallel_recv (None # rest) allMovies = None"
| "collectMoviesParallel_recv (Some movies # rest) allMovies =
     collectMoviesParallel_recv rest (allMovies @ movies)"

definition collectMoviesParallel ::
  "(nat \<Rightarrow> net) \<Rightarrow> nat list \<Rightarrow> string list \<Rightarrow> string list \<Rightarrow> Movie list option" where
  "collectMoviesParallel nets arrival friends excludeMovies =
     collectMoviesParallel_recv
       (map (\<lambda>w. map_option fst (getRatedMovies (nets w) (friends ! w) excludeMovies [])) arrival) []"

section \<open>Notions used in the statements\<close>

text \<open>
  An attempt of \<open>getPage\<close> fails, and is followed by the next one, when \<open>client.Get\<close>
  returns an error or the status is not 200. A rated entry of a page is a poster with a target link and a rating element: what
  sets \<open>moviesOnPage\<close>.
\<close>

definition attemptFails :: "outcome \<Rightarrow> bool" where
  "attemptFails out = (case out of TransportError \<Rightarrow> True | Response status doc \<Rightarrow> status \<noteq> 200)"

definition ratedEntry :: "Poster \<Rightarrow> bool" where
  "ratedEntry s \<longleftrightarrow> targetLink s \<noteq> None \<and> ratingSpans s \<noteq> []"

section \<open>Sample data\<close>

definition r1 :: Result where
  "r1 = \<lparr>AvgRating = 7.5, VoteCount = 2, URL = ''/film/x/'', Ratings = [7, 8]\<rparr>"

definition r2 :: Result where
  "r2 = \<lparr>AvgRating = 4, VoteCount = 3, URL = ''/film/y/'', Ratings = [4, 4, 4]\<rparr>"

definition obs :: "Movie list" where
  "obs = [\<lparr>Movie.URL = ''/film/y/'', Rating = 4\<rparr>,
          \<lparr>Movie.URL = ''/film/x/'', Rating = 7\<rparr>,
          \<lparr>Movie.URL = ''/film/x/'', Rating = 8\<rparr>]"

definition obs_permuted :: "Movie list" where
  "obs_permuted = [\<lparr>Movie.URL = ''/film/x/'', Rating = 8\<rparr>,
          \<lparr>Movie.URL = ''/film/y/'', Rating = 4\<rparr>,
          \<lparr>Movie.URL = ''/film/x/'', Rating = 7\<rparr>]"

definition sA :: Result where
  "sA = \<lparr>AvgRating = 0.9, VoteCount = 3, URL = ''A'', Ratings = [1, 1, 1]\<rparr>"
definition sB :: Result where
  "sB = \<lparr>AvgRating = 0.9, VoteCount = 5, URL = ''B'', Ratings = [1, 1, 1, 1, 1]\<rparr>"
definition sC :: Result where
  "sC = \<lparr>AvgRating = 0.95, VoteCount = 1, URL = ''C'', Ratings = [1]\<rparr>"

definition tieA :: Result where
  "tieA = \<lparr>AvgRating = 0.9, VoteCount = 3, URL = ''A'', Ratings = [1, 1, 1]\<rparr>"
definition tieB :: Result where
  "tieB = \<lparr>AvgRating = 0.9, VoteCount = 3, URL = ''B'', Ratings = [1, 1, 1]\<rparr>"

text \<open>
  Pages and networks for the sample runs: a listing of four pages whose third page is a
  parameter (with an entry that has no rating element, with a rated entry that is
  excluded, or with a rating element that carries no rating), a network that is down, one
  that answers at the fourth attempt, and one that serves a single page.
\<close>

definition ratedPoster :: "string \<Rightarrow> string \<Rightarrow> Poster" where
  "ratedPoster link cls = \<lparr>targetLink = Some link, ratingSpans = [Some cls]\<rparr>"

definition unratedPoster :: "string \<Rightarrow> Poster" where
  "unratedPoster link = \<lparr>targetLink = Some link, ratingSpans = []\<rparr>"

definition page :: "Poster list \<Rightarrow> string option \<Rightarrow> Document" where
  "page ps nxt = \<lparr>posters = ps, paginationNext = nxt, persons = [], headerSections = 1,
                  replaceIfYouText = []\<rparr>"

definition fourPages :: "Document \<Rightarrow> net" where
  "fourPages page3 reqs url =
     (if url = ''https://letterboxd.com/ann/films/by/member-rating/''
      then Response 200 (Some (page [ratedPoster ''/film/a/'' ''rating rated-8''] (Some ''/ann/p2'')))
      else if url = ''https://letterboxd.com/ann/p2''
      then Response 200 (Some (page [ratedPoster ''/film/b/'' ''rating rated-6''] (Some ''/ann/p3'')))
      else if url = ''https://letterboxd.com/ann/p3''
      then Response 200 (Some page3)
      else if url = ''https://letterboxd.com/ann/p4''
      then Response 200 (Some (page [ratedPoster ''/film/d/'' ''rating rated-4''] None))
      else TransportError)"

definition page3_unrated :: Document where
  "page3_unrated = page [unratedPoster ''/film/c/''] (Some ''/ann/p4'')"

definition page3_excluded :: Document where
  "page3_excluded = page [ratedPoster ''/film/c/'' ''rating rated-7''] (Some ''/ann/p4'')"

definition page3_unparsed :: Document where
  "page3_unparsed = page [ratedPoster ''/film/c/'' ''rating''] (Some ''/ann/p4'')"

definition downNet :: net where
  "downNet reqs url = TransportError"

definition flakyNet :: net where
  "flakyNet reqs url =
     (if length reqs < 2 then TransportError
      else if length reqs < 3 then Response 503 None
      else Response 200 (Some (page [] None)))"

text \<open>
  A network on which the first response arrives with status 200 but its body cannot be
  read (the connection breaks, or the timeout expires, while the body is read), and every
  later request would be answered in full.
\<close>

definition bodyErrorNet :: net where
  "bodyErrorNet reqs url =
     (if reqs = [] then Response 200 None else Response 200 (Some (page [] None)))"

definition annNet :: net where
  "annNet reqs url =
     (if url = ''https://letterboxd.com/ann/films/by/member-rating/''
      then Response 200 (Some (page [ratedPoster ''/film/x/'' ''rating rated-8'',
                                      ratedPoster ''/film/y/'' ''rating rated-6''] None))
      else TransportError)"

section \<open>Properties of the scoring helpers\<close>

lemma avg_sum_eq: "avg_sum list acc = acc + sum_list list"
  by (induction list arbitrary: acc) (simp_all add: add.assoc)

lemma weighted_loop_eq:
  "weighted_loop list wList =
     wList @ map (\<lambda>i. weights ! nat (sint i))
               (filter (\<lambda>i. 0 \<le>s i \<and> i <s of_nat (length weights)) list)"
  by (induction list arbitrary: wList) simp_all

lemma in_table_iff:
  "(0 \<le>s (i::go_int) \<and> i <s of_nat (length weights)) \<longleftrightarrow> (0 \<le> sint i \<and> sint i \<le> 9)"
  by (auto simp: weights_def word_sle_eq word_sless_alt)

section \<open>Claims on the pure helpers\<close>

text \<open>
  Claim C1. The worker count is \<open>len(friends) / 3 + 1\<close> capped at 12, except that a
  value below 2 is replaced by \<open>len(friends)\<close> itself; 5 friends give 2 workers, 1 friend
  gives 1, and 40 friends give 12.
\<close>

theorem numWorkers_formula:
  "numWorkers friends =
     (if int (length friends) div 3 + 1 < 2 then int (length friends)
      else min (int (length friends) div 3 + 1) 12)
   \<and> (length f5 = 5 \<longrightarrow> numWorkers f5 = 2)
   \<and> (length f1 = 1 \<longrightarrow> numWorkers f1 = 1)
   \<and> (length f40 = 40 \<longrightarrow> numWorkers f40 = 12)"
  by (simp add: numWorkers_def Let_def)

theorem numWorkers_formula_witness:
  "numWorkers [''a'', ''b'', ''c'', ''d'', ''e''] = 2
   \<and> numWorkers [''a''] = 1
   \<and> numWorkers (replicate 40 ''a'') = 12"
  using numWorkers_formula [of "[]" "[''a'', ''b'', ''c'', ''d'', ''e'']" "[''a'']" "replicate 40 ''a''"]
  by simp

lemma sint_sum_list_weights:
  "(\<forall>w\<in>set ws. 0 \<le> sint w \<and> sint w \<le> 100) \<Longrightarrow> length ws < 2 ^ 56 \<Longrightarrow>
     sint (sum_list ws :: go_int) = sum_list (map sint ws)
     \<and> 0 \<le> sum_list (map sint ws) \<and> sum_list (map sint ws) \<le> 100 * int (length ws)"
proof (induction ws)
  case Nil
  then show ?case by simp
next
  case (Cons w ws)
  then have IH: "sint (sum_list ws) = sum_list (map sint ws)"
    "0 \<le> sum_list (map sint ws)" "sum_list (map sint ws) \<le> 100 * int (length ws)"
    by auto
  from Cons.prems have w: "0 \<le> sint w" "sint w \<le> 100" by auto
  from Cons.prems have len: "int (length ws) < 2 ^ 56" by simp
  have "sint w + sum_list (map sint ws) < 2 ^ 63"
    using w IH len by simp
  moreover have "- (2 ^ 63) \<le> sint w + sum_list (map sint ws)"
    using w IH by simp
  ultimately have "sint (w + sum_list ws) = sint w + sum_list (map sint ws)"
    using IH(1) by (simp add: sint_word_ariths signed_take_bit_int_eq_self)
  then show ?case using w IH by simp
qed

lemma weights_all_range: "\<forall>w\<in>set weights. 0 \<le> sint w \<and> sint w \<le> 100"
  by (simp add: weights_def)

lemma weights_range:
  assumes "0 \<le> sint (i::go_int)" "sint i \<le> 9"
  shows "0 \<le> sint (weights ! nat (sint i)) \<and> sint (weights ! nat (sint i)) \<le> 100"
proof -
  have "nat (sint i) < length weights"
    using assms by (simp add: weights_def)
  then have "weights ! nat (sint i) \<in> set weights"
    by (rule nth_mem)
  then show ?thesis
    using weights_all_range by blast
qed

lemma weighted_loop_mapped: "weighted_loop list [] = weighted_mapped list"
  by (simp add: weighted_loop_eq weighted_mapped_def in_table_iff)

lemma weighted_mapped_range: "\<forall>w\<in>set (weighted_mapped list). 0 \<le> sint w \<and> sint w \<le> 100"
  using weights_range by (auto simp: weighted_mapped_def)

text \<open>
  Claim C5. \<open>weighted\<close> returns \<open>avg\<close> of the mapped list: the ratings of \<open>0..9\<close> sent
  through the table \<open>[100, 95, 80, 65, 40, 20, 5, 0, 0, 0]\<close>, every other rating dropped
  without a place in the divisor. For every slice that fits in memory (fewer than
  \<open>2^56\<close> elements) the 64-bit sum cannot wrap, and the result is the arithmetic mean of
  the mapped values (in the program, rounded to the nearest \<open>float64\<close>). The ratings \<open>[2, 15]\<close> are mapped to \<open>[80]\<close> and score 80.
\<close>

theorem weighted_is_table_mean:
  "weighted list = avg (weighted_mapped list)
   \<and> (length list < 2 ^ 56 \<longrightarrow>
        weighted list =
          (if weighted_mapped list = [] then 0
           else real_of_int (sum_list (map sint (weighted_mapped list)))
                / real (length (weighted_mapped list))))
   \<and> weights = [100, 95, 80, 65, 40, 20, 5, 0, 0, 0]
   \<and> weighted_loop [2, 15] [] = [80]
   \<and> weighted [2, 15] = 80"
proof -
  have a: "weighted list = avg (weighted_mapped list)"
    by (cases list) (simp_all add: weighted_def weighted_loop_mapped avg_def weighted_mapped_def)
  have b: "weighted list =
          (if weighted_mapped list = [] then 0
           else real_of_int (sum_list (map sint (weighted_mapped list)))
                / real (length (weighted_mapped list)))" if len: "length list < 2 ^ 56"
  proof -
    have "length (weighted_mapped list) \<le> length list"
      by (simp add: weighted_mapped_def)
    then have "length (weighted_mapped list) < 2 ^ 56"
      using len by simp
    then have "sint (sum_list (weighted_mapped list)) = sum_list (map sint (weighted_mapped list))"
      using sint_sum_list_weights [OF weighted_mapped_range] by blast
    then show ?thesis
      by (simp add: a avg_def avg_sum_eq)
  qed
  have c: "weighted_loop [2, 15] [] = [80]"
    by (simp add: weights_def word_sle_eq word_sless_alt)
  have d: "weighted [2, 15] = 80"
    by (simp add: weighted_def avg_def c del: weighted_loop.simps)
  show ?thesis
    using a b c d by (simp add: weights_def)
qed

theorem weighted_is_table_mean_witness:
  "length [2, 15 :: go_int] < 2 ^ 56
   \<and> weighted_mapped [2, 15] = [80]
   \<and> weighted [2, 15] = real_of_int (sum_list (map sint [80 :: go_int])) / real (length [80 :: go_int])"
proof -
  have m: "weighted_mapped [2, 15] = [80]"
    by (simp add: weighted_mapped_def weights_def)
  show ?thesis
    using weighted_is_table_mean [of "[2, 15]"] m by simp
qed

text \<open>
  Claim C10. When no rating of the list lies in \<open>0..9\<close> (the empty list included), the
  mapped list is empty and \<open>weighted\<close> returns 0.
\<close>

theorem weighted_all_discarded:
  "\<forall>r\<in>set list. \<not> (0 \<le> sint r \<and> sint r \<le> 9) \<Longrightarrow> weighted list = 0"
proof -
  assume "\<forall>r\<in>set list. \<not> (0 \<le> sint r \<and> sint r \<le> 9)"
  then have "filter (\<lambda>i. 0 \<le> sint i \<and> sint i \<le> 9) list = []"
    by (simp add: filter_empty_conv)
  then have "weighted_loop list [] = []"
    by (simp add: weighted_loop_mapped weighted_mapped_def)
  then show ?thesis
    by (simp add: weighted_def avg_def)
qed

theorem weighted_all_discarded_witness:
  "weighted [15, - 1, 10] = 0 \<and> weighted [] = 0"
  using weighted_all_discarded [of "[15, - 1, 10]"] weighted_all_discarded [of "[]"]
  by simp

lemma showResults_filter_loop_eq:
  "showResults_filter_loop threshold moviesList moviesFiltered =
     moviesFiltered @ filter (\<lambda>movie. sint threshold \<le> sint (VoteCount movie)) moviesList"
  by (induction moviesList arbitrary: moviesFiltered) (simp_all add: word_sle_eq)

text \<open>
  Claim C3. The filter of \<open>showResults\<close> keeps, in order, exactly the results whose
  \<open>VoteCount\<close> is at least the threshold; a larger threshold never yields a longer
  output, and what it keeps was kept for the smaller threshold.
\<close>

theorem showResults_filter_exact:
  "showResults_filter t moviesList = filter (\<lambda>movie. sint t \<le> sint (VoteCount movie)) moviesList
   \<and> set (showResults_filter t moviesList) = {movie \<in> set moviesList. sint t \<le> sint (VoteCount movie)}
   \<and> (sint t1 \<le> sint t2 \<longrightarrow>
        length (showResults_filter t2 moviesList) \<le> length (showResults_filter t1 moviesList)
        \<and> set (showResults_filter t2 moviesList) \<subseteq> set (showResults_filter t1 moviesList))"
proof -
  have eq: "\<And>t. showResults_filter t moviesList
              = filter (\<lambda>movie. sint t \<le> sint (VoteCount movie)) moviesList"
    by (simp add: showResults_filter_def showResults_filter_loop_eq)
  have mono: "length (filter (\<lambda>movie. sint t2 \<le> sint (VoteCount movie)) moviesList)
                \<le> length (filter (\<lambda>movie. sint t1 \<le> sint (VoteCount movie)) moviesList)"
    if "sint t1 \<le> sint t2"
  proof -
    have "filter (\<lambda>movie. sint t2 \<le> sint (VoteCount movie)) moviesList
            = filter (\<lambda>movie. sint t2 \<le> sint (VoteCount movie))
                (filter (\<lambda>movie. sint t1 \<le> sint (VoteCount movie)) moviesList)"
      using that by (auto intro: filter_cong)
    then show ?thesis
      by (metis length_filter_le)
  qed
  show ?thesis
    using mono by (auto simp: eq)
qed

theorem showResults_filter_exact_witness:
  "sint (2 :: go_int) \<le> sint (3 :: go_int)
   \<and> showResults_filter 2 [r1, r2] = [r1, r2]
   \<and> showResults_filter 3 [r1, r2] = [r2]
   \<and> length (showResults_filter 3 [r1, r2]) \<le> length (showResults_filter 2 [r1, r2])"
  using showResults_filter_exact [of 2 "[r1, r2]" 2 3] showResults_filter_exact [of 3 "[r1, r2]" 2 3]
  by (simp add: r1_def r2_def)

section \<open>Grouping: the loops of \<open>mergeMovies\<close>\<close>

lemma mergeMovies_inner_eq:
  "j \<le> length movies \<Longrightarrow>
   mergeMovies_inner movies movie j ratings =
     (j + length (takeWhile (\<lambda>x. Movie.URL x = Movie.URL movie) (drop j movies)),
      ratings @ map Rating (takeWhile (\<lambda>x. Movie.URL x = Movie.URL movie) (drop j movies)))"
proof (induction movies movie j ratings rule: mergeMovies_inner.induct)
  case (1 movies movie j ratings)
  show ?case
  proof (cases "j < length movies")
    case True
    then have d: "drop j movies = movies ! j # drop (j + 1) movies"
      by (simp add: Cons_nth_drop_Suc)
    show ?thesis
    proof (cases "Movie.URL (movies ! j) = Movie.URL movie")
      case same: True
      have "mergeMovies_inner movies movie j ratings
              = mergeMovies_inner movies movie (j + 1) (ratings @ [Rating (movies ! j)])"
        using True same by (subst mergeMovies_inner.simps) simp
      also have "\<dots> = (j + 1 + length (takeWhile (\<lambda>x. Movie.URL x = Movie.URL movie) (drop (j + 1) movies)),
          (ratings @ [Rating (movies ! j)])
            @ map Rating (takeWhile (\<lambda>x. Movie.URL x = Movie.URL movie) (drop (j + 1) movies)))"
        using "1.IH" True same by simp
      finally show ?thesis
        using same by (simp add: d)
    next
      case False
      then show ?thesis
        using True by (subst mergeMovies_inner.simps) (simp add: d)
    qed
  next
    case False
    then show ?thesis
      using "1.prems" by (subst mergeMovies_inner.simps) simp
  qed
qed

lemma drop_takeWhile_dropWhile:
  "drop (length (takeWhile P xs)) xs = dropWhile P xs"
  by (induction xs) simp_all

lemma mergeMovies_outer_eq:
  "i \<le> length movies \<Longrightarrow>
   mergeMovies_outer movies i uniqueMovies = uniqueMovies @ groupRuns (drop i movies)"
proof (induction movies i uniqueMovies rule: mergeMovies_outer.induct)
  case (1 movies i uniqueMovies)
  show ?case
  proof (cases "i < length movies")
    case True
    define movie where "movie = movies ! i"
    define run where "run = takeWhile (\<lambda>x. Movie.URL x = Movie.URL movie) (drop (i + 1) movies)"
    define jr where "jr = mergeMovies_inner movies movie (i + 1) [Rating movie]"
    have jr: "jr = (i + 1 + length run, Rating movie # map Rating run)"
      using True by (simp add: jr_def run_def mergeMovies_inner_eq)
    have le: "fst jr \<le> length movies"
    proof -
      have "length run \<le> length (drop (i + 1) movies)"
        unfolding run_def by (rule length_takeWhile_le)
      then show ?thesis using True by (simp add: jr)
    qed
    have d: "drop i movies = movie # drop (i + 1) movies"
      using True by (simp add: Cons_nth_drop_Suc movie_def)
    have dd: "drop (fst jr) movies = dropWhile (\<lambda>x. Movie.URL x = Movie.URL movie) (drop (i + 1) movies)"
    proof -
      have "fst jr = length run + (i + 1)"
        by (simp add: jr)
      then have "drop (fst jr) movies = drop (length run) (drop (i + 1) movies)"
        by (simp only: drop_drop)
      also have "\<dots> = dropWhile (\<lambda>x. Movie.URL x = Movie.URL movie) (drop (i + 1) movies)"
        unfolding run_def by (rule drop_takeWhile_dropWhile)
      finally show ?thesis .
    qed
    have "mergeMovies_outer movies i uniqueMovies
            = mergeMovies_outer movies (fst jr)
                (uniqueMovies @ [\<lparr>MovieWithRatings.URL = Movie.URL movie, Ratings = snd jr\<rparr>])"
      using True by (subst mergeMovies_outer.simps) (simp add: Let_def movie_def jr_def)
    also have "\<dots> = (uniqueMovies @ [\<lparr>MovieWithRatings.URL = Movie.URL movie, Ratings = snd jr\<rparr>])
                       @ groupRuns (drop (fst jr) movies)"
      using "1.IH" [OF True movie_def jr_def le] .
    also have "\<dots> = uniqueMovies @ groupRuns (movie # drop (i + 1) movies)"
      unfolding dd by (simp add: jr run_def)
    finally show ?thesis
      by (simp only: d)
  next
    case False
    then show ?thesis
      using "1.prems" by (subst mergeMovies_outer.simps) simp
  qed
qed

lemma mergeMovies_eq: "mergeMovies srt movies = groupRuns (srt mergeMovies_less movies)"
  by (simp add: mergeMovies_def mergeMovies_outer_eq)

lemma groupRuns_lengths:
  "sum_list (map (\<lambda>g. length (MovieWithRatings.Ratings g)) (groupRuns xs)) = length xs"
proof (induction xs rule: groupRuns.induct)
  case 1
  show ?case by simp
next
  case (2 m ms)
  have "length (takeWhile (\<lambda>x. Movie.URL x = Movie.URL m) ms)
          + length (dropWhile (\<lambda>x. Movie.URL x = Movie.URL m) ms) = length ms"
    by (simp only: length_append [symmetric] takeWhile_dropWhile_id)
  then show ?case
    using "2.IH" by simp
qed

lemma set_takeWhile_dropWhile:
  "set ms \<subseteq> set (takeWhile P ms) \<union> set (dropWhile P ms)"
proof -
  have "set ms = set (takeWhile P ms @ dropWhile P ms)"
    by (simp only: takeWhile_dropWhile_id)
  also have "\<dots> = set (takeWhile P ms) \<union> set (dropWhile P ms)"
    by (rule set_append)
  finally show ?thesis
    by (rule equalityD1)
qed

lemma groupRuns_keys:
  "set (map MovieWithRatings.URL (groupRuns xs)) = Movie.URL ` set xs"
proof (induction xs rule: groupRuns.induct)
  case 1
  show ?case by simp
next
  case (2 m ms)
  let ?P = "\<lambda>x. Movie.URL x = Movie.URL m"
  have cover: "set ms \<subseteq> set (takeWhile ?P ms) \<union> set (dropWhile ?P ms)"
    by (rule set_takeWhile_dropWhile)
  have tw: "\<forall>x\<in>set (takeWhile ?P ms). Movie.URL x = Movie.URL m"
    using set_takeWhileD by fastforce
  have dw: "set (dropWhile ?P ms) \<subseteq> set ms"
    using set_dropWhileD by fastforce
  have "Movie.URL ` set ms \<subseteq> insert (Movie.URL m) (Movie.URL ` set (dropWhile ?P ms))"
    using cover tw by blast
  moreover have "Movie.URL ` set (dropWhile ?P ms) \<subseteq> Movie.URL ` set ms"
    using dw by blast
  ultimately have "Movie.URL ` set (m # ms) = insert (Movie.URL m) (Movie.URL ` set (dropWhile ?P ms))"
    by (simp only: list.set image_insert) blast
  then show ?case
    using "2.IH" by simp
qed

lemma sorted_dropWhile:
  assumes "sorted (map Movie.URL (m # ms))"
  shows "sorted (map Movie.URL (dropWhile P ms))"
proof -
  have "sorted (map Movie.URL ms)"
    using assms by simp
  then have "sorted (map Movie.URL (takeWhile P ms) @ map Movie.URL (dropWhile P ms))"
    by (simp only: map_append [symmetric] takeWhile_dropWhile_id)
  then show ?thesis
    by (simp only: sorted_append)
qed

lemma sorted_dropWhile_greater:
  assumes "sorted (map Movie.URL (m # ms))"
    and "x \<in> set (dropWhile (\<lambda>x. Movie.URL x = Movie.URL m) ms)"
  shows "Movie.URL m < Movie.URL x"
proof -
  let ?P = "\<lambda>x. Movie.URL x = Movie.URL m"
  from assms(2) obtain y rest where yr: "dropWhile ?P ms = y # rest"
    by (cases "dropWhile ?P ms") auto
  have ny: "Movie.URL y \<noteq> Movie.URL m"
    using hd_dropWhile [of ?P ms] yr by simp
  have "set (dropWhile ?P ms) \<subseteq> set ms"
    using set_dropWhileD by fastforce
  then have "y \<in> set ms" "x \<in> set ms"
    using yr assms(2) by auto
  then have "Movie.URL m \<le> Movie.URL y"
    using assms(1) by simp
  then have my: "Movie.URL m < Movie.URL y"
    using ny by simp
  have "sorted (map Movie.URL (y # rest))"
    using sorted_dropWhile [OF assms(1), of ?P] yr by simp
  then have "Movie.URL y \<le> Movie.URL x"
    using assms(2) yr by auto
  then show ?thesis
    using my by simp
qed

lemma groupRuns_sorted:
  "sorted (map Movie.URL xs) \<Longrightarrow> sorted_wrt (<) (map MovieWithRatings.URL (groupRuns xs))"
proof (induction xs rule: groupRuns.induct)
  case 1
  show ?case by simp
next
  case (2 m ms)
  let ?P = "\<lambda>x. Movie.URL x = Movie.URL m"
  have "sorted_wrt (<) (map MovieWithRatings.URL (groupRuns (dropWhile ?P ms)))"
    using "2.IH" sorted_dropWhile [OF "2.prems", of ?P] by blast
  moreover have "\<forall>u\<in>set (map MovieWithRatings.URL (groupRuns (dropWhile ?P ms))). Movie.URL m < u"
    unfolding groupRuns_keys using sorted_dropWhile_greater [OF "2.prems"] by blast
  ultimately show ?case
    by simp
qed

lemma sorted_filter_takeWhile:
  assumes "sorted (map Movie.URL (m # ms))"
  shows "filter (\<lambda>x. Movie.URL x = Movie.URL m) ms = takeWhile (\<lambda>x. Movie.URL x = Movie.URL m) ms"
proof -
  let ?P = "\<lambda>x. Movie.URL x = Movie.URL m"
  have "filter ?P ms = filter ?P (takeWhile ?P ms) @ filter ?P (dropWhile ?P ms)"
    by (simp only: filter_append [symmetric] takeWhile_dropWhile_id)
  moreover have "filter ?P (takeWhile ?P ms) = takeWhile ?P ms"
    unfolding filter_id_conv using set_takeWhileD by fastforce
  moreover have "filter ?P (dropWhile ?P ms) = []"
    unfolding filter_empty_conv using sorted_dropWhile_greater [OF assms] by fastforce
  ultimately show ?thesis
    by simp
qed

lemma filter_greater_key:
  assumes "Movie.URL m < u"
  shows "filter (\<lambda>x. Movie.URL x = u) (m # ms)
           = filter (\<lambda>x. Movie.URL x = u) (dropWhile (\<lambda>x. Movie.URL x = Movie.URL m) ms)"
  using assms by (induction ms) auto

lemma groupRuns_ratings:
  "sorted (map Movie.URL xs) \<Longrightarrow> g \<in> set (groupRuns xs) \<Longrightarrow>
     MovieWithRatings.Ratings g = map Rating (filter (\<lambda>x. Movie.URL x = MovieWithRatings.URL g) xs)"
proof (induction xs rule: groupRuns.induct)
  case 1
  then show ?case by simp
next
  case (2 m ms)
  let ?P = "\<lambda>x. Movie.URL x = Movie.URL m"
  let ?hd = "\<lparr>MovieWithRatings.URL = Movie.URL m, Ratings = Rating m # map Rating (takeWhile ?P ms)\<rparr>"
  have "g = ?hd \<or> g \<in> set (groupRuns (dropWhile ?P ms))"
    using "2.prems"(2) by (simp only: groupRuns.simps set_simps insert_iff)
  then show ?case
  proof
    assume g: "g = ?hd"
    have "filter ?P (m # ms) = m # takeWhile ?P ms"
      using sorted_filter_takeWhile [OF "2.prems"(1)] by simp
    then show ?thesis
      by (simp add: g)
  next
    assume g: "g \<in> set (groupRuns (dropWhile ?P ms))"
    have srt: "sorted (map Movie.URL (dropWhile ?P ms))"
      by (rule sorted_dropWhile [OF "2.prems"(1)])
    have ih: "MovieWithRatings.Ratings g
                = map Rating (filter (\<lambda>x. Movie.URL x = MovieWithRatings.URL g) (dropWhile ?P ms))"
      by (rule "2.IH" [OF srt g])
    have "MovieWithRatings.URL g \<in> set (map MovieWithRatings.URL (groupRuns (dropWhile ?P ms)))"
      using g by (simp only: set_map image_eqI [OF refl])
    then have "MovieWithRatings.URL g \<in> Movie.URL ` set (dropWhile ?P ms)"
      by (simp only: groupRuns_keys)
    then obtain x where "x \<in> set (dropWhile ?P ms)" "MovieWithRatings.URL g = Movie.URL x"
      by blast
    then have gt: "Movie.URL m < MovieWithRatings.URL g"
      using sorted_dropWhile_greater [OF "2.prems"(1), of x] by simp
    show ?thesis
      unfolding ih by (simp only: filter_greater_key [OF gt])
  qed
qed

lemma sort_Slice_post_sorted:
  "sort_Slice_post mergeMovies_less movies sorted_movies \<Longrightarrow> sorted (map Movie.URL sorted_movies)"
  by (simp add: sort_Slice_post_def mergeMovies_less_def sorted_map not_less)

section \<open>Sample runs of the merge\<close>

lemma obs_sorted:
  "insertionSort mergeMovies_less obs =
     [\<lparr>Movie.URL = ''/film/x/'', Rating = 7\<rparr>,
      \<lparr>Movie.URL = ''/film/x/'', Rating = 8\<rparr>,
      \<lparr>Movie.URL = ''/film/y/'', Rating = 4\<rparr>]"
  by (simp add: insertionSort_def obs_def mergeMovies_less_def)

lemma obs_permuted_sorted:
  "insertionSort mergeMovies_less obs_permuted =
     [\<lparr>Movie.URL = ''/film/x/'', Rating = 8\<rparr>,
      \<lparr>Movie.URL = ''/film/x/'', Rating = 7\<rparr>,
      \<lparr>Movie.URL = ''/film/y/'', Rating = 4\<rparr>]"
  by (simp add: insertionSort_def obs_permuted_def mergeMovies_less_def)

lemma obs_post: "sort_Slice_post mergeMovies_less obs (insertionSort mergeMovies_less obs)"
  unfolding obs_sorted by (simp add: sort_Slice_post_def obs_def mergeMovies_less_def)

lemma obs_permuted_post:
  "sort_Slice_post mergeMovies_less obs_permuted (insertionSort mergeMovies_less obs_permuted)"
  unfolding obs_permuted_sorted by (simp add: sort_Slice_post_def obs_permuted_def mergeMovies_less_def)

lemma obs_merged:
  "mergeMovies insertionSort obs =
     [\<lparr>MovieWithRatings.URL = ''/film/x/'', Ratings = [7, 8]\<rparr>,
      \<lparr>MovieWithRatings.URL = ''/film/y/'', Ratings = [4]\<rparr>]"
  unfolding mergeMovies_eq obs_sorted by simp

section \<open>Claims on grouping and mean scoring\<close>

lemma sort_Slice_post_mset: "sort_Slice_post lt xs ys \<Longrightarrow> mset ys = mset xs"
  by (simp add: sort_Slice_post_def)

lemma length_filter_key_distinct:
  "distinct (map f gs) \<Longrightarrow> u \<in> f ` set gs \<Longrightarrow> length (filter (\<lambda>g. f g = u) gs) = 1"
proof (induction gs)
  case Nil
  then show ?case by simp
next
  case (Cons g gs)
  show ?case
  proof (cases "f g = u")
    case True
    then have "u \<notin> f ` set gs"
      using Cons.prems(1) by auto
    then have "filter (\<lambda>g. f g = u) gs = []"
      unfolding filter_empty_conv by blast
    then show ?thesis
      using True by simp
  next
    case False
    then have "u \<in> f ` set gs"
      using Cons.prems(2) by auto
    then show ?thesis
      using Cons.IH Cons.prems(1) False by simp
  qed
qed

lemma groupRuns_distinct:
  "sorted (map Movie.URL xs) \<Longrightarrow> distinct (map MovieWithRatings.URL (groupRuns xs))"
  using groupRuns_sorted [of xs] by (simp only: strict_sorted_iff)

text \<open>
  Claim C2. Whatever order \<open>sort.Slice\<close> leaves among equal keys, the groups of
  \<open>mergeMovies\<close> partition the observations: the lengths of the groups' rating lists add
  up to the number of observations, every key of the input is the key of exactly one
  group, and each group holds exactly the ratings of the observations with its key.
\<close>

theorem mergeMovies_partition:
  assumes "sort_Slice_post mergeMovies_less movies (srt mergeMovies_less movies)"
  shows "sum_list (map (\<lambda>g. length (MovieWithRatings.Ratings g)) (mergeMovies srt movies)) = length movies
    \<and> (\<forall>m\<in>set movies.
          length (filter (\<lambda>g. MovieWithRatings.URL g = Movie.URL m) (mergeMovies srt movies)) = 1)
    \<and> (\<forall>g\<in>set (mergeMovies srt movies).
          MovieWithRatings.URL g \<in> Movie.URL ` set movies
          \<and> mset (MovieWithRatings.Ratings g)
              = image_mset Rating (filter_mset (\<lambda>m. Movie.URL m = MovieWithRatings.URL g) (mset movies)))"
proof -
  define s where "s = srt mergeMovies_less movies"
  have ms: "mset s = mset movies"
    using assms by (simp add: s_def sort_Slice_post_def)
  have srt: "sorted (map Movie.URL s)"
    using assms unfolding s_def by (rule sort_Slice_post_sorted)
  have mm: "mergeMovies srt movies = groupRuns s"
    by (simp add: mergeMovies_eq s_def)
  have sets: "set s = set movies"
    using ms by (rule mset_eq_setD)
  have a: "sum_list (map (\<lambda>g. length (MovieWithRatings.Ratings g)) (groupRuns s)) = length movies"
    using groupRuns_lengths [of s] mset_eq_length [OF ms] by simp
  have b: "length (filter (\<lambda>g. MovieWithRatings.URL g = Movie.URL m) (groupRuns s)) = 1"
    if "m \<in> set movies" for m
  proof -
    have "Movie.URL m \<in> MovieWithRatings.URL ` set (groupRuns s)"
      using that groupRuns_keys [of s] sets by (simp only: set_map) blast
    then show ?thesis
      using length_filter_key_distinct [OF groupRuns_distinct [OF srt]] by blast
  qed
  have c: "MovieWithRatings.URL g \<in> Movie.URL ` set movies
          \<and> mset (MovieWithRatings.Ratings g)
              = image_mset Rating (filter_mset (\<lambda>m. Movie.URL m = MovieWithRatings.URL g) (mset movies))"
    if "g \<in> set (groupRuns s)" for g
  proof -
    have "MovieWithRatings.URL g \<in> set (map MovieWithRatings.URL (groupRuns s))"
      using that by (simp only: set_map image_eqI [OF refl])
    then have k: "MovieWithRatings.URL g \<in> Movie.URL ` set movies"
      by (simp only: groupRuns_keys sets)
    have "mset (MovieWithRatings.Ratings g)
            = mset (map Rating (filter (\<lambda>m. Movie.URL m = MovieWithRatings.URL g) s))"
      by (simp only: groupRuns_ratings [OF srt that])
    also have "\<dots> = image_mset Rating (filter_mset (\<lambda>m. Movie.URL m = MovieWithRatings.URL g) (mset s))"
      by (simp only: mset_map mset_filter)
    finally show ?thesis
      using k by (simp only: ms simp_thms)
  qed
  show ?thesis
    unfolding mm using a b c by blast
qed

theorem mergeMovies_partition_witness:
  "mergeMovies insertionSort obs =
     [\<lparr>MovieWithRatings.URL = ''/film/x/'', Ratings = [7, 8]\<rparr>,
      \<lparr>MovieWithRatings.URL = ''/film/y/'', Ratings = [4]\<rparr>]
   \<and> sum_list (map (\<lambda>g. length (MovieWithRatings.Ratings g)) (mergeMovies insertionSort obs)) = length obs
   \<and> length (filter (\<lambda>g. MovieWithRatings.URL g = ''/film/x/'') (mergeMovies insertionSort obs)) = 1"
  using mergeMovies_partition [where srt = insertionSort and movies = obs, OF obs_post] obs_merged by (simp add: obs_def)

lemma processResults_loop_eq:
  "processResults_loop uniqueMovies results =
     results @ map (\<lambda>movie. \<lparr>AvgRating = avg (MovieWithRatings.Ratings movie),
                    VoteCount = of_nat (length (MovieWithRatings.Ratings movie)),
                    URL = MovieWithRatings.URL movie,
                    Ratings = MovieWithRatings.Ratings movie\<rparr>) uniqueMovies"
  by (induction uniqueMovies arbitrary: results) simp_all

lemma scoredTriple_processResults:
  "map scoredTriple (processResults gs) =
     map (\<lambda>g. (MovieWithRatings.URL g, avg (MovieWithRatings.Ratings g),
                of_nat (length (MovieWithRatings.Ratings g)))) gs"
  by (simp add: processResults_def processResults_loop_eq scoredTriple_def comp_def)

lemma avg_mset: "mset l = mset l' \<Longrightarrow> avg l = avg l'"
proof -
  assume m: "mset l = mset l'"
  have "sum_list l = sum_list l'"
    using m by (metis sum_mset_sum_list)
  moreover have "length l = length l'"
    using m by (rule mset_eq_length)
  ultimately show ?thesis
    by (simp add: avg_def avg_sum_eq)
qed

lemma groupRuns_triples:
  assumes "sorted (map Movie.URL s)"
  shows "map scoredTriple (processResults (groupRuns s)) =
     map (\<lambda>u. (u, avg (map Rating (filter (\<lambda>x. Movie.URL x = u) s)),
                of_nat (length (filter (\<lambda>x. Movie.URL x = u) s))))
       (map MovieWithRatings.URL (groupRuns s))"
proof -
  have "(MovieWithRatings.URL g, avg (MovieWithRatings.Ratings g),
          (of_nat (length (MovieWithRatings.Ratings g)) :: go_int))
        = (MovieWithRatings.URL g,
           avg (map Rating (filter (\<lambda>x. Movie.URL x = MovieWithRatings.URL g) s)),
           of_nat (length (filter (\<lambda>x. Movie.URL x = MovieWithRatings.URL g) s)))"
    if "g \<in> set (groupRuns s)" for g
    by (simp add: groupRuns_ratings [OF assms that])
  then show ?thesis
    unfolding scoredTriple_processResults map_map comp_def by (simp only: map_eq_conv) blast
qed

text \<open>
  Claim C8. Two orderings of the same multiset of observations, each sorted by
  \<open>sort.Slice\<close> in whatever way it does, are merged and mean-scored to the same triples
  (itemKey, score, observationCount), as a list and so as a set; with both orderings the
  same list, aggregating again gives the same triples.
\<close>

theorem mean_aggregation_order_insensitive:
  assumes "mset ys = mset xs"
    and "sort_Slice_post mergeMovies_less xs (srt1 mergeMovies_less xs)"
    and "sort_Slice_post mergeMovies_less ys (srt2 mergeMovies_less ys)"
  shows "map scoredTriple (processResults (mergeMovies srt1 xs))
           = map scoredTriple (processResults (mergeMovies srt2 ys))
    \<and> set (map scoredTriple (processResults (mergeMovies srt1 xs)))
           = set (map scoredTriple (processResults (mergeMovies srt2 ys)))"
proof -
  define sx where "sx = srt1 mergeMovies_less xs"
  define sy where "sy = srt2 mergeMovies_less ys"
  have mx: "mset sx = mset xs" and my: "mset sy = mset ys"
    using assms(2,3) by (simp_all add: sx_def sy_def sort_Slice_post_def)
  then have m: "mset sx = mset sy"
    using assms(1) by simp
  have ox: "sorted (map Movie.URL sx)"
    using assms(2) unfolding sx_def by (rule sort_Slice_post_sorted)
  have oy: "sorted (map Movie.URL sy)"
    using assms(3) unfolding sy_def by (rule sort_Slice_post_sorted)
  have keys: "map MovieWithRatings.URL (groupRuns sx) = map MovieWithRatings.URL (groupRuns sy)"
  proof (rule sorted_distinct_set_unique)
    show "sorted (map MovieWithRatings.URL (groupRuns sx))"
      using groupRuns_sorted [OF ox] by (simp only: strict_sorted_iff)
    show "sorted (map MovieWithRatings.URL (groupRuns sy))"
      using groupRuns_sorted [OF oy] by (simp only: strict_sorted_iff)
    show "distinct (map MovieWithRatings.URL (groupRuns sx))"
      by (rule groupRuns_distinct [OF ox])
    show "distinct (map MovieWithRatings.URL (groupRuns sy))"
      by (rule groupRuns_distinct [OF oy])
    show "set (map MovieWithRatings.URL (groupRuns sx)) = set (map MovieWithRatings.URL (groupRuns sy))"
      using mset_eq_setD [OF m] by (simp only: groupRuns_keys)
  qed
  have per_key: "(u, avg (map Rating (filter (\<lambda>x. Movie.URL x = u) sx)),
                   (of_nat (length (filter (\<lambda>x. Movie.URL x = u) sx)) :: go_int))
               = (u, avg (map Rating (filter (\<lambda>x. Movie.URL x = u) sy)),
                   of_nat (length (filter (\<lambda>x. Movie.URL x = u) sy)))" for u
  proof -
    have f: "mset (filter (\<lambda>x. Movie.URL x = u) sx) = mset (filter (\<lambda>x. Movie.URL x = u) sy)"
      by (simp only: mset_filter m)
    then have "mset (map Rating (filter (\<lambda>x. Movie.URL x = u) sx))
                 = mset (map Rating (filter (\<lambda>x. Movie.URL x = u) sy))"
      by (simp only: mset_map)
    then have "avg (map Rating (filter (\<lambda>x. Movie.URL x = u) sx))
                 = avg (map Rating (filter (\<lambda>x. Movie.URL x = u) sy))"
      by (rule avg_mset)
    moreover have "length (filter (\<lambda>x. Movie.URL x = u) sx) = length (filter (\<lambda>x. Movie.URL x = u) sy)"
      using f by (rule mset_eq_length)
    ultimately show ?thesis
      by simp
  qed
  have "map scoredTriple (processResults (groupRuns sx)) = map scoredTriple (processResults (groupRuns sy))"
    unfolding groupRuns_triples [OF ox] groupRuns_triples [OF oy] keys by (simp only: per_key)
  then show ?thesis
    by (simp add: mergeMovies_eq sx_def sy_def)
qed

theorem mean_aggregation_order_insensitive_witness:
  "mset obs_permuted = mset obs
   \<and> map scoredTriple (processResults (mergeMovies insertionSort obs))
       = [(''/film/x/'', 7.5, 2), (''/film/y/'', 4, 1)]
   \<and> map scoredTriple (processResults (mergeMovies insertionSort obs_permuted))
       = [(''/film/x/'', 7.5, 2), (''/film/y/'', 4, 1)]"
proof -
  have p: "mset obs_permuted = mset obs"
    by (simp add: obs_def obs_permuted_def)
  have "map scoredTriple (processResults (mergeMovies insertionSort obs))
       = [(''/film/x/'', 7.5, 2), (''/film/y/'', 4, 1)]"
    unfolding obs_merged
    by (simp add: processResults_def scoredTriple_def avg_def)
  then show ?thesis
    using mean_aggregation_order_insensitive
      [where ?srt1.0 = insertionSort and ?srt2.0 = insertionSort and xs = obs and ys = obs_permuted,
        OF p obs_post obs_permuted_post] p
    by simp
qed

section \<open>Claims on the sort of \<open>showResults\<close>\<close>

lemma not_showResults_less:
  "\<not> showResults_less b a \<longleftrightarrow>
     AvgRating b < AvgRating a \<or> (AvgRating a = AvgRating b \<and> VoteCount b \<le>s VoteCount a)"
  by (auto simp: showResults_less_def word_sle_eq word_sless_alt)

lemma sorted_three_unique:
  assumes "mset ys = mset [a, b, c]"
    and "sorted_wrt (\<lambda>p q. \<not> lt q p) ys"
    and "lt c b" "lt c a" "lt b a"
    and "distinct [a, b, c]"
  shows "ys = [c, b, a]"
proof -
  have "length ys = 3"
    using mset_eq_length [OF assms(1)] by simp
  then obtain x y z where ys: "ys = [x, y, z]"
    by (auto simp: length_Suc_conv numeral_3_eq_3)
  have s: "\<not> lt y x" "\<not> lt z x" "\<not> lt z y"
    using assms(2) by (auto simp: ys)
  have d: "distinct [x, y, z]"
    using mset_eq_imp_distinct_iff [OF assms(1)] assms(6) by (simp only: ys)
  have "set [x, y, z] = set [a, b, c]"
    using mset_eq_setD [OF assms(1)] by (simp only: ys)
  then have e: "x \<in> {a, b, c}" "y \<in> {a, b, c}" "z \<in> {a, b, c}"
    by auto
  show ?thesis
    using s d e assms(3,4,5) unfolding ys by auto
qed

lemma sample_less:
  "showResults_less sC sB" "showResults_less sC sA" "showResults_less sB sA" "distinct [sA, sB, sC]"
  by (simp_all add: showResults_less_def sA_def sB_def sC_def word_sless_alt)

text \<open>
  Claim C4 (as amended). For every outcome \<open>sort.Slice\<close> may leave, the sorted results
  are a permutation of the filtered ones, ordered by score descending and, among equal
  scores, by count descending; nothing is promised among results equal in both. The
  results (A, 0.9, 3), (B, 0.9, 5), (C, 0.95, 1) can only end up as C, B, A.
\<close>

theorem showResults_sort_order:
  "(sort_Slice_post showResults_less moviesFiltered (srt showResults_less moviesFiltered) \<longrightarrow>
      mset (showResults_sort srt moviesFiltered) = mset moviesFiltered
      \<and> ranked_by_score_count (showResults_sort srt moviesFiltered))
   \<and> (sort_Slice_post showResults_less [sA, sB, sC] (srt' showResults_less [sA, sB, sC]) \<longrightarrow>
      showResults_sort srt' [sA, sB, sC] = [sC, sB, sA])"
proof -
  have a: "mset (showResults_sort srt moviesFiltered) = mset moviesFiltered
      \<and> ranked_by_score_count (showResults_sort srt moviesFiltered)"
    if "sort_Slice_post showResults_less moviesFiltered (srt showResults_less moviesFiltered)"
    using that
    by (simp add: sort_Slice_post_def showResults_sort_def ranked_by_score_count_def
        not_showResults_less)
  have b: "showResults_sort srt' [sA, sB, sC] = [sC, sB, sA]"
    if "sort_Slice_post showResults_less [sA, sB, sC] (srt' showResults_less [sA, sB, sC])"
  proof -
    have "mset (srt' showResults_less [sA, sB, sC]) = mset [sA, sB, sC]"
      and "sorted_wrt (\<lambda>p q. \<not> showResults_less q p) (srt' showResults_less [sA, sB, sC])"
      using that by (simp_all add: sort_Slice_post_def)
    then show ?thesis
      unfolding showResults_sort_def
      by (rule sorted_three_unique [OF _ _ sample_less])
  qed
  show ?thesis
    using a b by blast
qed

theorem showResults_sort_order_witness:
  "showResults_sort insertionSort [sA, sB, sC] = [sC, sB, sA]
   \<and> ranked_by_score_count (showResults_sort insertionSort [sA, sB, sC])"
proof -
  have i: "insertionSort showResults_less [sA, sB, sC] = [sC, sB, sA]"
    using sample_less(1-3)
    by (simp add: insertionSort_def)
  have p: "sort_Slice_post showResults_less [sA, sB, sC] (insertionSort showResults_less [sA, sB, sC])"
    unfolding i using sample_less
    by (auto simp: sort_Slice_post_def showResults_less_def sA_def sB_def sC_def word_sless_alt)
  show ?thesis
    using showResults_sort_order
      [where srt = insertionSort and srt' = insertionSort and moviesFiltered = "[sA, sB, sC]"] p
    by blast
qed

text \<open>
  Claim C4 as stated fails: two results with equal score and equal count, given as B then
  A, stay B then A (insertion sort moves an element only past a strictly greater one), so
  the exact tie is not in key order; and for the input A then B the outcome B then A is
  one \<open>sort.Slice\<close> is allowed to return.
\<close>

theorem showResults_sort_ties_counterexample:
  "showResults_sort insertionSort [tieB, tieA] = [tieB, tieA]
   \<and> sort_Slice_post showResults_less [tieB, tieA] (showResults_sort insertionSort [tieB, tieA])
   \<and> sort_Slice_post showResults_less [tieA, tieB] [tieB, tieA]
   \<and> \<not> ranked_by_score_count_key (showResults_sort insertionSort [tieB, tieA])"
  by (simp add: showResults_sort_def insertionSort_def showResults_less_def sort_Slice_post_def
      ranked_by_score_count_key_def tieA_def tieB_def word_sless_alt)

section \<open>The fetch primitive\<close>

lemma getPage_loop_fail_step:
  "retry < 10 \<Longrightarrow> attemptFails (net reqs url) \<Longrightarrow>
     getPage_loop net url retry reqs = getPage_loop net url (retry + 1) (reqs @ [url])"
  by (subst getPage_loop.simps) (simp add: attemptFails_def split: outcome.splits)

lemma getPage_loop_ok_step:
  "retry < 10 \<Longrightarrow> net reqs url = Response 200 doc \<Longrightarrow>
     getPage_loop net url retry reqs = (doc, reqs @ [url])"
  by (subst getPage_loop.simps) simp

lemma getPage_loop_done: "\<not> retry < 10 \<Longrightarrow> getPage_loop net url retry reqs = (None, reqs)"
  by (subst getPage_loop.simps) simp

lemma replicate_snoc_append: "(reqs @ [url]) @ replicate j url = reqs @ replicate (Suc j) url"
  by (simp add: replicate_append_same)

lemma getPage_loop_retries:
  "retry + k < 10 \<Longrightarrow> (\<forall>j<k. attemptFails (net (reqs @ replicate j url) url)) \<Longrightarrow>
     net (reqs @ replicate k url) url = Response 200 doc \<Longrightarrow>
     getPage_loop net url retry reqs = (doc, reqs @ replicate (Suc k) url)"
proof (induction k arbitrary: retry reqs)
  case 0
  then show ?case
    using getPage_loop_ok_step [of retry net reqs url doc] by simp
next
  case (Suc k)
  have f0: "attemptFails (net reqs url)"
    using Suc.prems(2) by (metis append_Nil2 replicate_0 zero_less_Suc)
  have step: "getPage_loop net url retry reqs = getPage_loop net url (retry + 1) (reqs @ [url])"
    using Suc.prems(1) f0 by (intro getPage_loop_fail_step) simp_all
  have a: "\<forall>j<k. attemptFails (net ((reqs @ [url]) @ replicate j url) url)"
    using Suc.prems(2) unfolding replicate_snoc_append by auto
  have b: "net ((reqs @ [url]) @ replicate k url) url = Response 200 doc"
    using Suc.prems(3) unfolding replicate_snoc_append .
  have c: "retry + 1 + k < 10"
    using Suc.prems(1) by simp
  have "getPage_loop net url (retry + 1) (reqs @ [url])
          = (doc, (reqs @ [url]) @ replicate (Suc k) url)"
    by (rule Suc.IH [OF c a b])
  then show ?case
    unfolding step replicate_snoc_append .
qed

lemma getPage_loop_exhausted:
  "retry + k = 10 \<Longrightarrow> (\<forall>j<k. attemptFails (net (reqs @ replicate j url) url)) \<Longrightarrow>
     getPage_loop net url retry reqs = (None, reqs @ replicate k url)"
proof (induction k arbitrary: retry reqs)
  case 0
  then show ?case
    using getPage_loop_done [of retry net url reqs] by simp
next
  case (Suc k)
  have f0: "attemptFails (net reqs url)"
    using Suc.prems(2) by (metis append_Nil2 replicate_0 zero_less_Suc)
  have step: "getPage_loop net url retry reqs = getPage_loop net url (retry + 1) (reqs @ [url])"
    using Suc.prems(1) f0 by (intro getPage_loop_fail_step) simp_all
  have a: "\<forall>j<k. attemptFails (net ((reqs @ [url]) @ replicate j url) url)"
    using Suc.prems(2) unfolding replicate_snoc_append by auto
  have c: "retry + 1 + k = 10"
    using Suc.prems(1) by simp
  have "getPage_loop net url (retry + 1) (reqs @ [url])
          = (None, (reqs @ [url]) @ replicate k url)"
    by (rule Suc.IH [OF c a])
  then show ?case
    unfolding step replicate_snoc_append .
qed

lemma getPage_loop_bound:
  "\<exists>k\<le>10 - retry. snd (getPage_loop net url retry reqs) = reqs @ replicate k url"
proof (induction net url retry reqs rule: getPage_loop.induct)
  case (1 net url retry reqs)
  show ?case
  proof (cases "retry < 10")
    case False
    then show ?thesis
      using getPage_loop_done [of retry net url reqs] by simp
  next
    case True
    show ?thesis
    proof (cases "attemptFails (net reqs url)")
      case fails: True
      have step: "getPage_loop net url retry reqs = getPage_loop net url (retry + 1) (reqs @ [url])"
        using True fails by (rule getPage_loop_fail_step)
      have "\<exists>k\<le>10 - (retry + 1). snd (getPage_loop net url (retry + 1) (reqs @ [url]))
              = (reqs @ [url]) @ replicate k url"
        using fails True "1.IH" by (cases "net reqs url") (auto simp: attemptFails_def)
      then obtain k where "k \<le> 10 - (retry + 1)"
        and "snd (getPage_loop net url (retry + 1) (reqs @ [url])) = reqs @ replicate (Suc k) url"
        unfolding replicate_snoc_append by blast
      then show ?thesis
        using True unfolding step by (intro exI [of _ "Suc k"]) simp
    next
      case False
      then obtain doc where "net reqs url = Response 200 doc"
        by (cases "net reqs url") (auto simp: attemptFails_def)
      then have "getPage_loop net url retry reqs = (doc, reqs @ [url])"
        using True by (intro getPage_loop_ok_step)
      then show ?thesis
        using True by (intro exI [of _ 1]) simp
    qed
  qed
qed

lemma getPage_reqs_set: "set (snd (getPage net url reqs)) \<subseteq> set reqs \<union> {url}"
proof -
  obtain k where "snd (getPage_loop net url 0 reqs) = reqs @ replicate k url"
    using getPage_loop_bound [of 0 net url reqs] by blast
  then show ?thesis
    by (auto simp: getPage_def)
qed

section \<open>The crawls and the collector\<close>

lemma getRatedMovies_each_unrated: "\<not> ratedEntry s \<Longrightarrow> getRatedMovies_each excludeMap st s = st"
  by (auto simp: getRatedMovies_each_def ratedEntry_def split: option.splits)

lemma getRatedMovies_each_flag:
  "snd (getRatedMovies_each excludeMap st s) \<longleftrightarrow> snd st \<or> ratedEntry s"
  by (auto simp: getRatedMovies_each_def ratedEntry_def Let_def split: option.splits)

lemma getRatedMovies_fold_unrated:
  "\<forall>s\<in>set ps. \<not> ratedEntry s \<Longrightarrow> foldl (getRatedMovies_each excludeMap) st ps = st"
  by (induction ps arbitrary: st) (simp_all add: getRatedMovies_each_unrated)

lemma getRatedMovies_fold_flag:
  "snd (foldl (getRatedMovies_each excludeMap) st ps) \<longleftrightarrow> snd st \<or> (\<exists>s\<in>set ps. ratedEntry s)"
  by (induction ps arbitrary: st) (auto simp: getRatedMovies_each_flag)

lemma getRatedMovies_loop_fail:
  assumes "fst (getPage net url reqs) = None"
  shows "getRatedMovies_loop net excludeMap url movies reqs = Some (movies, snd (getPage net url reqs))"
proof -
  obtain reqs' where g: "getPage net url reqs = (None, reqs')"
    using assms by (cases "getPage net url reqs") simp
  show ?thesis
    by (subst getRatedMovies_loop.simps) (simp add: g)
qed

lemma getRatedMovies_loop_stop:
  assumes "getPage net url reqs = (Some doc, reqs')" and "\<forall>s\<in>set (posters doc). \<not> ratedEntry s"
  shows "getRatedMovies_loop net excludeMap url movies reqs = Some (movies, reqs')"
  by (subst getRatedMovies_loop.simps) (simp add: assms(1) getRatedMovies_fold_unrated [OF assms(2)])

lemma getRatedMovies_loop_next:
  assumes "getPage net url reqs = (Some doc, reqs')" and "\<exists>s\<in>set (posters doc). ratedEntry s"
    and "paginationNext doc = Some nextLink"
  shows "getRatedMovies_loop net excludeMap url movies reqs
       = getRatedMovies_loop net excludeMap (''https://letterboxd.com'' @ nextLink)
           (fst (foldl (getRatedMovies_each excludeMap) (movies, False) (posters doc))) reqs'"
proof -
  obtain movies' moviesOnPage
    where f: "foldl (getRatedMovies_each excludeMap) (movies, False) (posters doc) = (movies', moviesOnPage)"
    by (cases "foldl (getRatedMovies_each excludeMap) (movies, False) (posters doc)")
  have "snd (foldl (getRatedMovies_each excludeMap) (movies, False) (posters doc))"
    using assms(2) by (simp only: getRatedMovies_fold_flag) simp
  then have m: "moviesOnPage"
    by (simp add: f)
  show ?thesis
    by (subst getRatedMovies_loop.simps) (simp add: assms(1,3) f m)
qed

lemma getRatedMovies_loop_last:
  assumes "getPage net url reqs = (Some doc, reqs')" and "paginationNext doc = None"
  shows "getRatedMovies_loop net excludeMap url movies reqs
       = Some (fst (foldl (getRatedMovies_each excludeMap) (movies, False) (posters doc)), reqs')"
proof -
  obtain movies' moviesOnPage
    where f: "foldl (getRatedMovies_each excludeMap) (movies, False) (posters doc) = (movies', moviesOnPage)"
    by (cases "foldl (getRatedMovies_each excludeMap) (movies, False) (posters doc)")
  show ?thesis
    by (subst getRatedMovies_loop.simps) (simp add: assms f)
qed

lemma excludeMap_of_iff: "excludeMap_of excludeMovies excludeMap t \<longleftrightarrow> t \<in> set excludeMovies \<or> excludeMap t"
  by (induction excludeMovies arbitrary: excludeMap) auto

lemma getRatedMovies_each_excluded:
  "\<forall>m\<in>set (fst st). \<not> excludeMap (Movie.URL m) \<Longrightarrow>
     \<forall>m\<in>set (fst (getRatedMovies_each excludeMap st s)). \<not> excludeMap (Movie.URL m)"
  by (auto simp: getRatedMovies_each_def Let_def split: option.splits)

lemma getRatedMovies_fold_excluded:
  "\<forall>m\<in>set (fst st). \<not> excludeMap (Movie.URL m) \<Longrightarrow>
     \<forall>m\<in>set (fst (foldl (getRatedMovies_each excludeMap) st ps)). \<not> excludeMap (Movie.URL m)"
proof (induction ps arbitrary: st)
  case Nil
  then show ?case by simp
next
  case (Cons s ps)
  have "\<forall>m\<in>set (fst (getRatedMovies_each excludeMap st s)). \<not> excludeMap (Movie.URL m)"
    using Cons.prems by (rule getRatedMovies_each_excluded)
  then show ?case
    using Cons.IH by simp
qed

lemma getRatedMovies_loop_excluded_aux:
  assumes "getRatedMovies_loop net excludeMap url movies reqs = Some res"
  shows "(\<forall>m\<in>set movies. \<not> excludeMap (Movie.URL m))
           \<longrightarrow> (\<forall>m\<in>set (fst res). \<not> excludeMap (Movie.URL m))"
proof (rule getRatedMovies_loop.raw_induct
    [where P = "\<lambda>net excludeMap url movies reqs res.
        (\<forall>m\<in>set movies. \<not> excludeMap (Movie.URL m))
           \<longrightarrow> (\<forall>m\<in>set (fst res). \<not> excludeMap (Movie.URL m))", OF _ assms])
  fix loop :: "net \<Rightarrow> (string \<Rightarrow> bool) \<Rightarrow> string \<Rightarrow> Movie list \<Rightarrow> string list
                 \<Rightarrow> (Movie list \<times> string list) option"
    and net excludeMap url movies reqs res
  assume IH: "\<And>net excludeMap url movies reqs res.
      loop net excludeMap url movies reqs = Some res \<Longrightarrow>
      (\<forall>m\<in>set movies. \<not> excludeMap (Movie.URL m))
        \<longrightarrow> (\<forall>m\<in>set (fst res). \<not> excludeMap (Movie.URL m))"
    and eq: "(case getPage net url reqs of
        (None, reqs') \<Rightarrow> Some (movies, reqs')
      | (Some doc, reqs') \<Rightarrow>
          (case foldl (getRatedMovies_each excludeMap) (movies, False) (posters doc) of
             (movies', moviesOnPage) \<Rightarrow>
               if \<not> moviesOnPage then Some (movies', reqs')
               else (case paginationNext doc of
                       None \<Rightarrow> Some (movies', reqs')
                     | Some nextLink \<Rightarrow>
                         loop net excludeMap (''https://letterboxd.com'' @ nextLink) movies' reqs')))
      = Some res"
  show "(\<forall>m\<in>set movies. \<not> excludeMap (Movie.URL m))
           \<longrightarrow> (\<forall>m\<in>set (fst res). \<not> excludeMap (Movie.URL m))"
  proof
    assume prem: "\<forall>m\<in>set movies. \<not> excludeMap (Movie.URL m)"
    obtain d reqs' where g: "getPage net url reqs = (d, reqs')"
      by (cases "getPage net url reqs")
    show "\<forall>m\<in>set (fst res). \<not> excludeMap (Movie.URL m)"
    proof (cases d)
      case None
      then have "res = (movies, reqs')"
        using eq by (auto simp: g)
      then show ?thesis
        using prem by simp
    next
      case (Some doc)
      obtain movies' moviesOnPage
        where f: "foldl (getRatedMovies_each excludeMap) (movies, False) (posters doc)
                    = (movies', moviesOnPage)"
        by (cases "foldl (getRatedMovies_each excludeMap) (movies, False) (posters doc)")
      have inv: "\<forall>m\<in>set movies'. \<not> excludeMap (Movie.URL m)"
        using getRatedMovies_fold_excluded [of "(movies, False)" excludeMap "posters doc"] prem
        by (simp add: f)
      show ?thesis
      proof (cases "moviesOnPage \<and> paginationNext doc \<noteq> None")
        case True
        then obtain nextLink where n: "paginationNext doc = Some nextLink"
          by auto
        have "loop net excludeMap (''https://letterboxd.com'' @ nextLink) movies' reqs' = Some res"
          using eq True by (simp add: g Some f n)
        then show ?thesis
          using inv IH by blast
      next
        case False
        then have "res = (movies', reqs')"
          using eq by (auto simp: g Some f split: option.splits)
        then show ?thesis
          using inv by simp
      qed
    qed
  qed
qed

lemma getRatedMovies_excluded:
  assumes "getRatedMovies net username excludeMovies reqs = Some res"
  shows "\<forall>m\<in>set (fst res). Movie.URL m \<notin> set excludeMovies"
  using getRatedMovies_loop_excluded_aux [OF assms [unfolded getRatedMovies_def]]
  by (simp add: excludeMap_of_iff)

lemma collectMoviesParallel_recv_all:
  "collectMoviesParallel_recv msgs allMovies = Some result \<Longrightarrow>
     \<forall>m\<in>set allMovies. P m \<Longrightarrow>
     (\<And>movies m. Some movies \<in> set msgs \<Longrightarrow> m \<in> set movies \<Longrightarrow> P m) \<Longrightarrow>
     \<forall>m\<in>set result. P m"
proof (induction msgs allMovies rule: collectMoviesParallel_recv.induct)
  case (1 allMovies)
  then show ?case by simp
next
  case (2 rest allMovies)
  then show ?case by simp
next
  case (3 movies rest allMovies)
  have r: "collectMoviesParallel_recv rest (allMovies @ movies) = Some result"
    using "3.prems"(1) by simp
  have a: "\<forall>m\<in>set (allMovies @ movies). P m"
    using "3.prems"(2) "3.prems"(3) [of movies] by auto
  have b: "P m" if "Some movies' \<in> set rest" "m \<in> set movies'" for movies' m
    using "3.prems"(3) [of movies' m] that by simp
  show ?case
    using "3.IH" [OF r a b] by simp
qed

lemma getAllMovies_loop_fail:
  assumes "fst (getPage net url reqs) = None"
  shows "getAllMovies_loop net url movies reqs = Some (movies, snd (getPage net url reqs))"
proof -
  obtain reqs' where g: "getPage net url reqs = (None, reqs')"
    using assms by (cases "getPage net url reqs") simp
  show ?thesis
    by (subst getAllMovies_loop.simps) (simp add: g)
qed

lemma findFollowing_loop_fail:
  assumes "fst (getPage net url reqs) = None"
  shows "findFollowing_loop net url following reqs = Some (following, snd (getPage net url reqs))"
proof -
  obtain reqs' where g: "getPage net url reqs = (None, reqs')"
    using assms by (cases "getPage net url reqs") simp
  show ?thesis
    by (subst findFollowing_loop.simps) (simp add: g)
qed

lemma checkUser_fail:
  assumes "fst (getPage net (''https://letterboxd.com/'' @ username) reqs) = None"
  shows "fst (checkUser net username reqs) = (username, False)"
proof -
  obtain reqs' where g: "getPage net (''https://letterboxd.com/'' @ username) reqs = (None, reqs')"
    using assms by (cases "getPage net (''https://letterboxd.com/'' @ username) reqs") simp
  show ?thesis
    by (simp only: checkUser_def g prod.case option.case) simp
qed

lemma getMovieCount_loop_fail:
  assumes "i < length friends"
    and "fst (getPage net (''https://letterboxd.com/'' @ friends ! i @ ''/films/rated/.5-5/'') reqs) = None"
  shows "getMovieCount_loop net friends i movieCount reqs
           = getMovieCount_loop net friends (i + 1) movieCount
               (snd (getPage net (''https://letterboxd.com/'' @ friends ! i @ ''/films/rated/.5-5/'') reqs))"
proof -
  obtain reqs' where g: "getPage net (''https://letterboxd.com/'' @ friends ! i @ ''/films/rated/.5-5/'') reqs
      = (None, reqs')"
    using assms(2)
    by (cases "getPage net (''https://letterboxd.com/'' @ friends ! i @ ''/films/rated/.5-5/'') reqs") simp
  show ?thesis
    by (subst getMovieCount_loop.simps)
      (simp only: g assms(1) if_True prod.case option.case snd_conv)
qed

lemma getMovieCount_loop_length:
  "length (fst (getMovieCount_loop net friends i movieCount reqs)) = length movieCount"
proof (induction net friends i movieCount reqs rule: getMovieCount_loop.induct)
  case (1 net friends i movieCount reqs)
  show ?case
  proof (cases "i < length friends")
    case False
    then show ?thesis
      by (subst getMovieCount_loop.simps) simp
  next
    case True
    obtain d reqs' where g: "getPage net (''https://letterboxd.com/'' @ friends ! i @ ''/films/rated/.5-5/'') reqs
        = (d, reqs')"
      by (cases "getPage net (''https://letterboxd.com/'' @ friends ! i @ ''/films/rated/.5-5/'') reqs")
    have step: "getMovieCount_loop net friends i movieCount reqs =
        (case d of
           None \<Rightarrow> getMovieCount_loop net friends (i + 1) movieCount reqs'
         | Some doc \<Rightarrow>
             (let parts = Split (replaceIfYouText doc) ''has''
              in if length parts < 2 then getMovieCount_loop net friends (i + 1) movieCount reqs'
                 else (let numb = filter isDigit (parts ! 1)
                       in if numb \<noteq> []
                          then getMovieCount_loop net friends (i + 1)
                                 (movieCount[i := fst (Atoi numb)]) reqs'
                          else getMovieCount_loop net friends (i + 1) movieCount reqs')))"
      by (subst getMovieCount_loop.simps) (simp only: g True if_True prod.case)
    show ?thesis
      unfolding step using "1.IH" [OF True g [symmetric]]
      by (auto simp: Let_def split: option.splits)
  qed
qed

section \<open>Sample runs of the crawls\<close>

lemma getPage_ok: "net reqs url = Response 200 doc \<Longrightarrow> getPage net url reqs = (doc, reqs @ [url])"
  unfolding getPage_def by (rule getPage_loop_ok_step) simp_all

lemma getPage_downNet: "getPage downNet url reqs = (None, reqs @ replicate 10 url)"
  unfolding getPage_def
  by (rule getPage_loop_exhausted) (simp_all add: downNet_def attemptFails_def)

lemma crawl_unrated_pages:
  "getPage (fourPages page3_unrated) ''https://letterboxd.com/ann/films/by/member-rating/'' []
     = (Some (page [ratedPoster ''/film/a/'' ''rating rated-8''] (Some ''/ann/p2'')),
        [''https://letterboxd.com/ann/films/by/member-rating/''])
   \<and> getPage (fourPages page3_unrated) (''https://letterboxd.com'' @ ''/ann/p2'')
         [''https://letterboxd.com/ann/films/by/member-rating/'']
     = (Some (page [ratedPoster ''/film/b/'' ''rating rated-6''] (Some ''/ann/p3'')),
        [''https://letterboxd.com/ann/films/by/member-rating/'', ''https://letterboxd.com/ann/p2''])
   \<and> getPage (fourPages page3_unrated) (''https://letterboxd.com'' @ ''/ann/p3'')
         [''https://letterboxd.com/ann/films/by/member-rating/'', ''https://letterboxd.com/ann/p2'']
     = (Some page3_unrated,
        [''https://letterboxd.com/ann/films/by/member-rating/'', ''https://letterboxd.com/ann/p2'',
         ''https://letterboxd.com/ann/p3''])"
  by (simp add: getPage_ok fourPages_def)

section \<open>Claims on fetching, crawling and collecting\<close>

text \<open>
  Claim C7 (as amended). \<open>getPage\<close> makes at most 10 requests, all for the same URL. As
  long as an attempt fails before a response with status 200 arrives (an error returned by
  \<open>client.Get\<close>, or a status other than 200) and fewer than 10 were made, the next one
  follows, and the first response with status 200 ends the loop with the result of reading
  its body; when all 10 attempts fail the result is the failure. A response with status
  200 whose body cannot be read is the failure at once: that error is not retried. Every
  caller turns a failed fetch, of either kind, into a value of its own: the three crawls
  return what they have collected up to that page, \<open>checkUser\<close> answers that the user does
  not exist, and \<open>getMovieCount\<close> leaves the count of that friend untouched and goes on to
  the next friend, so that it returns one count per friend.
\<close>

theorem getPage_retries_and_callers:
  "(\<exists>k\<le>10. snd (getPage net url reqs) = reqs @ replicate k url)
   \<and> (k < 10 \<and> (\<forall>j<k. attemptFails (net (reqs @ replicate j url) url))
        \<and> net (reqs @ replicate k url) url = Response 200 doc
      \<longrightarrow> getPage net url reqs = (doc, reqs @ replicate (Suc k) url))
   \<and> ((\<forall>j<10. attemptFails (net (reqs @ replicate j url) url))
      \<longrightarrow> getPage net url reqs = (None, reqs @ replicate 10 url))
   \<and> (fst (getPage net url reqs) = None
      \<longrightarrow> getRatedMovies_loop net excludeMap url movies reqs = Some (movies, snd (getPage net url reqs))
        \<and> getAllMovies_loop net url allMovies reqs = Some (allMovies, snd (getPage net url reqs))
        \<and> findFollowing_loop net url following reqs = Some (following, snd (getPage net url reqs)))
   \<and> (fst (getPage net (''https://letterboxd.com/'' @ username) reqs) = None
      \<longrightarrow> fst (checkUser net username reqs) = (username, False))
   \<and> (i < length friends
        \<and> fst (getPage net (''https://letterboxd.com/'' @ friends ! i @ ''/films/rated/.5-5/'') reqs) = None
      \<longrightarrow> getMovieCount_loop net friends i movieCount reqs
           = getMovieCount_loop net friends (i + 1) movieCount
               (snd (getPage net (''https://letterboxd.com/'' @ friends ! i @ ''/films/rated/.5-5/'') reqs)))
   \<and> length (fst (getMovieCount net friends reqs)) = length friends
   \<and> (net reqs url = Response 200 None
      \<longrightarrow> getPage net url reqs = (None, reqs @ [url])
        \<and> getRatedMovies_loop net excludeMap url movies reqs = Some (movies, reqs @ [url]))"
proof -
  have a: "\<exists>k\<le>10. snd (getPage net url reqs) = reqs @ replicate k url"
    using getPage_loop_bound [of 0 net url reqs] by (simp add: getPage_def)
  have b: "k < 10 \<and> (\<forall>j<k. attemptFails (net (reqs @ replicate j url) url))
        \<and> net (reqs @ replicate k url) url = Response 200 doc
      \<longrightarrow> getPage net url reqs = (doc, reqs @ replicate (Suc k) url)"
    unfolding getPage_def using getPage_loop_retries [of 0 k net reqs url doc] by simp
  have c: "(\<forall>j<10. attemptFails (net (reqs @ replicate j url) url))
      \<longrightarrow> getPage net url reqs = (None, reqs @ replicate 10 url)"
    unfolding getPage_def using getPage_loop_exhausted [of 0 10 net reqs url] by simp
  have d: "fst (getPage net url reqs) = None
      \<longrightarrow> getRatedMovies_loop net excludeMap url movies reqs = Some (movies, snd (getPage net url reqs))
        \<and> getAllMovies_loop net url allMovies reqs = Some (allMovies, snd (getPage net url reqs))
        \<and> findFollowing_loop net url following reqs = Some (following, snd (getPage net url reqs))"
    using getRatedMovies_loop_fail [of net url reqs excludeMap movies]
      getAllMovies_loop_fail [of net url reqs allMovies]
      findFollowing_loop_fail [of net url reqs following]
    by blast
  have e: "fst (getPage net (''https://letterboxd.com/'' @ username) reqs) = None
      \<longrightarrow> fst (checkUser net username reqs) = (username, False)"
    using checkUser_fail [of net username reqs] by blast
  have f: "i < length friends
        \<and> fst (getPage net (''https://letterboxd.com/'' @ friends ! i @ ''/films/rated/.5-5/'') reqs) = None
      \<longrightarrow> getMovieCount_loop net friends i movieCount reqs
           = getMovieCount_loop net friends (i + 1) movieCount
               (snd (getPage net (''https://letterboxd.com/'' @ friends ! i @ ''/films/rated/.5-5/'') reqs))"
    using getMovieCount_loop_fail [of i friends net reqs movieCount] by blast
  have g: "length (fst (getMovieCount net friends reqs)) = length friends"
    by (simp add: getMovieCount_def getMovieCount_loop_length)
  have h: "net reqs url = Response 200 None
      \<longrightarrow> getPage net url reqs = (None, reqs @ [url])
        \<and> getRatedMovies_loop net excludeMap url movies reqs = Some (movies, reqs @ [url])"
  proof
    assume r: "net reqs url = Response 200 None"
    have p: "getPage net url reqs = (None, reqs @ [url])"
      unfolding getPage_def using r by (intro getPage_loop_ok_step) simp_all
    then have "getRatedMovies_loop net excludeMap url movies reqs
                 = Some (movies, snd (getPage net url reqs))"
      by (intro getRatedMovies_loop_fail) simp
    then show "getPage net url reqs = (None, reqs @ [url])
        \<and> getRatedMovies_loop net excludeMap url movies reqs = Some (movies, reqs @ [url])"
      using p by simp
  qed
  show ?thesis
    using a b c d e f g h by (intro conjI) assumption+
qed

theorem getPage_retries_and_callers_witness:
  "getPage flakyNet ''https://letterboxd.com/ann'' [] =
     (Some (page [] None), replicate 4 ''https://letterboxd.com/ann'')
   \<and> getPage downNet ''https://letterboxd.com/ann'' [] = (None, replicate 10 ''https://letterboxd.com/ann'')
   \<and> getRatedMovies_loop downNet (\<lambda>m. False) ''https://letterboxd.com/ann''
         [\<lparr>Movie.URL = ''/film/a/'', Rating = 8\<rparr>] []
       = Some ([\<lparr>Movie.URL = ''/film/a/'', Rating = 8\<rparr>], replicate 10 ''https://letterboxd.com/ann'')
   \<and> getAllMovies_loop downNet ''https://letterboxd.com/ann'' [''/film/a/''] []
       = Some ([''/film/a/''], replicate 10 ''https://letterboxd.com/ann'')
   \<and> findFollowing_loop downNet ''https://letterboxd.com/ann'' [''bob''] []
       = Some ([''bob''], replicate 10 ''https://letterboxd.com/ann'')
   \<and> fst (checkUser downNet ''ann'' []) = (''ann'', False)
   \<and> fst (getMovieCount downNet [''ann'', ''bob''] []) = [0, 0]
   \<and> getRatedMovies_loop bodyErrorNet (\<lambda>m. False) ''https://letterboxd.com/ann''
         [\<lparr>Movie.URL = ''/film/a/'', Rating = 8\<rparr>] []
       = Some ([\<lparr>Movie.URL = ''/film/a/'', Rating = 8\<rparr>], [''https://letterboxd.com/ann''])"
proof -
  have flaky: "3 < (10::nat) \<and> (\<forall>j<3. attemptFails (flakyNet ([] @ replicate j ''https://letterboxd.com/ann'')
                       ''https://letterboxd.com/ann''))
      \<and> flakyNet ([] @ replicate 3 ''https://letterboxd.com/ann'') ''https://letterboxd.com/ann''
          = Response 200 (Some (page [] None))"
    by (simp add: flakyNet_def attemptFails_def)
  have down: "\<And>url reqs. \<forall>j<10. attemptFails (downNet (reqs @ replicate j url) url)"
    by (simp add: downNet_def attemptFails_def)
  have a: "getPage flakyNet ''https://letterboxd.com/ann'' [] =
     (Some (page [] None), replicate 4 ''https://letterboxd.com/ann'')"
    using getPage_retries_and_callers
      [where net = flakyNet and url = "''https://letterboxd.com/ann''" and reqs = "[]" and k = 3
        and doc = "Some (page [] None)"] flaky
    by (simp only: append_Nil) (simp add: numeral_eq_Suc)
  have b: "getPage downNet ''https://letterboxd.com/ann'' [] = (None, replicate 10 ''https://letterboxd.com/ann'')
   \<and> getRatedMovies_loop downNet (\<lambda>m. False) ''https://letterboxd.com/ann''
         [\<lparr>Movie.URL = ''/film/a/'', Rating = 8\<rparr>] []
       = Some ([\<lparr>Movie.URL = ''/film/a/'', Rating = 8\<rparr>], replicate 10 ''https://letterboxd.com/ann'')
   \<and> getAllMovies_loop downNet ''https://letterboxd.com/ann'' [''/film/a/''] []
       = Some ([''/film/a/''], replicate 10 ''https://letterboxd.com/ann'')
   \<and> findFollowing_loop downNet ''https://letterboxd.com/ann'' [''bob''] []
       = Some ([''bob''], replicate 10 ''https://letterboxd.com/ann'')
   \<and> fst (checkUser downNet ''ann'' []) = (''ann'', False)"
    using getPage_retries_and_callers
      [where net = downNet and url = "''https://letterboxd.com/ann''" and reqs = "[]"
        and excludeMap = "\<lambda>m. False" and movies = "[\<lparr>Movie.URL = ''/film/a/'', Rating = 8\<rparr>]"
        and allMovies = "[''/film/a/'']" and following = "[''bob'']" and username = "''ann''"]
      down [of "[]" "''https://letterboxd.com/ann''"]
    by (simp only: append_Nil fst_conv snd_conv) simp
  have c: "fst (getMovieCount downNet [''ann'', ''bob''] []) = [0, 0]"
    by (simp add: getMovieCount_def getMovieCount_loop.simps getPage_downNet)
  have body: "bodyErrorNet [] ''https://letterboxd.com/ann'' = Response 200 None"
    by (simp add: bodyErrorNet_def)
  have d: "getRatedMovies_loop bodyErrorNet (\<lambda>m. False) ''https://letterboxd.com/ann''
         [\<lparr>Movie.URL = ''/film/a/'', Rating = 8\<rparr>] []
       = Some ([\<lparr>Movie.URL = ''/film/a/'', Rating = 8\<rparr>], [''https://letterboxd.com/ann''])"
    using getPage_retries_and_callers
      [where net = bodyErrorNet and url = "''https://letterboxd.com/ann''" and reqs = "[]"
        and excludeMap = "\<lambda>m. False" and movies = "[\<lparr>Movie.URL = ''/film/a/'', Rating = 8\<rparr>]"]
      body
    by (simp only: append_Nil)
  show ?thesis
    using a b c d by simp
qed

text \<open>
  Claim C7 as stated fails: not every transport error is retried. The first response has
  status 200 and its body cannot be read; \<open>getPage\<close> returns the failure after this one
  request, although the next request would have been answered in full.
\<close>

theorem getPage_body_error_counterexample:
  "getPage bodyErrorNet ''https://letterboxd.com/ann'' [] = (None, [''https://letterboxd.com/ann''])
   \<and> bodyErrorNet [''https://letterboxd.com/ann''] ''https://letterboxd.com/ann''
       = Response 200 (Some (page [] None))"
  by (simp add: getPage_ok bodyErrorNet_def)

text \<open>
  Claim C6 (as amended). \<open>getRatedMovies\<close> ends at the first page that has no rated entry
  (no poster with both a target link and a rating element), whether or not that page has
  a next link; it returns the movies collected before that page and makes no further
  request. For three pages of which the first two have a rated entry and a next link and
  the third has no rated entry but a next link, the crawl returns after the third page:
  the request log it returns is the log after fetching page 3, and it holds no URL but
  those of the three pages beside the requests made before.
\<close>

theorem getRatedMovies_stops_at_unrated_page:
  "(getPage net url reqs = (Some doc, reqs') \<and> (\<forall>s\<in>set (posters doc). \<not> ratedEntry s)
      \<longrightarrow> getRatedMovies_loop net excludeMap url movies reqs = Some (movies, reqs'))
   \<and> (getPage net url1 reqs0 = (Some doc1, reqs1)
        \<and> (\<exists>s\<in>set (posters doc1). ratedEntry s) \<and> paginationNext doc1 = Some next1
        \<and> getPage net (''https://letterboxd.com'' @ next1) reqs1 = (Some doc2, reqs2)
        \<and> (\<exists>s\<in>set (posters doc2). ratedEntry s) \<and> paginationNext doc2 = Some next2
        \<and> getPage net (''https://letterboxd.com'' @ next2) reqs2 = (Some doc3, reqs3)
        \<and> (\<forall>s\<in>set (posters doc3). \<not> ratedEntry s) \<and> paginationNext doc3 = Some next3
      \<longrightarrow> getRatedMovies_loop net excludeMap url1 movies0 reqs0
            = Some (fst (foldl (getRatedMovies_each excludeMap)
                          (fst (foldl (getRatedMovies_each excludeMap) (movies0, False) (posters doc1)),
                           False)
                          (posters doc2)),
                    reqs3)
          \<and> set reqs3 \<subseteq> set reqs0
                \<union> {url1, ''https://letterboxd.com'' @ next1, ''https://letterboxd.com'' @ next2})"
proof -
  have one: "getRatedMovies_loop net excludeMap url movies reqs = Some (movies, reqs')"
    if "getPage net url reqs = (Some doc, reqs')" "\<forall>s\<in>set (posters doc). \<not> ratedEntry s"
    using that by (rule getRatedMovies_loop_stop)
  have three: "getRatedMovies_loop net excludeMap url1 movies0 reqs0
            = Some (fst (foldl (getRatedMovies_each excludeMap)
                          (fst (foldl (getRatedMovies_each excludeMap) (movies0, False) (posters doc1)),
                           False)
                          (posters doc2)),
                    reqs3)
          \<and> set reqs3 \<subseteq> set reqs0
                \<union> {url1, ''https://letterboxd.com'' @ next1, ''https://letterboxd.com'' @ next2}"
    if p1: "getPage net url1 reqs0 = (Some doc1, reqs1)"
      and r1: "\<exists>s\<in>set (posters doc1). ratedEntry s" and n1: "paginationNext doc1 = Some next1"
      and p2: "getPage net (''https://letterboxd.com'' @ next1) reqs1 = (Some doc2, reqs2)"
      and r2: "\<exists>s\<in>set (posters doc2). ratedEntry s" and n2: "paginationNext doc2 = Some next2"
      and p3: "getPage net (''https://letterboxd.com'' @ next2) reqs2 = (Some doc3, reqs3)"
      and r3: "\<forall>s\<in>set (posters doc3). \<not> ratedEntry s"
  proof -
    have "getRatedMovies_loop net excludeMap url1 movies0 reqs0
            = Some (fst (foldl (getRatedMovies_each excludeMap)
                          (fst (foldl (getRatedMovies_each excludeMap) (movies0, False) (posters doc1)),
                           False)
                          (posters doc2)),
                    reqs3)"
      by (simp only: getRatedMovies_loop_next [OF p1 r1 n1] getRatedMovies_loop_next [OF p2 r2 n2]
          getRatedMovies_loop_stop [OF p3 r3])
    moreover have "set reqs1 \<subseteq> set reqs0 \<union> {url1}"
      using getPage_reqs_set [of net url1 reqs0] unfolding p1 snd_conv .
    moreover have "set reqs2 \<subseteq> set reqs1 \<union> {''https://letterboxd.com'' @ next1}"
      using getPage_reqs_set [of net "''https://letterboxd.com'' @ next1" reqs1] unfolding p2 snd_conv .
    moreover have "set reqs3 \<subseteq> set reqs2 \<union> {''https://letterboxd.com'' @ next2}"
      using getPage_reqs_set [of net "''https://letterboxd.com'' @ next2" reqs2] unfolding p3 snd_conv .
    ultimately show ?thesis
      by blast
  qed
  show ?thesis
    by (intro conjI impI) (use one three in blast)+
qed

theorem getRatedMovies_stops_at_unrated_page_witness:
  "getRatedMovies (fourPages page3_unrated) ''ann'' [] [] =
     Some ([\<lparr>Movie.URL = ''/film/a/'', Rating = 8\<rparr>, \<lparr>Movie.URL = ''/film/b/'', Rating = 6\<rparr>],
           [''https://letterboxd.com/ann/films/by/member-rating/'', ''https://letterboxd.com/ann/p2'',
            ''https://letterboxd.com/ann/p3''])
   \<and> paginationNext page3_unrated = Some ''/ann/p4''"
proof -
  have rated: "(\<exists>s\<in>set (posters (page [ratedPoster ''/film/a/'' ''rating rated-8''] (Some ''/ann/p2''))).
                  ratedEntry s)
      \<and> (\<exists>s\<in>set (posters (page [ratedPoster ''/film/b/'' ''rating rated-6''] (Some ''/ann/p3''))).
                  ratedEntry s)
      \<and> (\<forall>s\<in>set (posters page3_unrated). \<not> ratedEntry s)"
    by (simp add: page_def page3_unrated_def ratedPoster_def unratedPoster_def ratedEntry_def)
  have nexts: "paginationNext (page [ratedPoster ''/film/a/'' ''rating rated-8''] (Some ''/ann/p2''))
        = Some ''/ann/p2''
      \<and> paginationNext (page [ratedPoster ''/film/b/'' ''rating rated-6''] (Some ''/ann/p3''))
        = Some ''/ann/p3''
      \<and> paginationNext page3_unrated = Some ''/ann/p4''"
    by (simp add: page_def page3_unrated_def)
  have "getRatedMovies_loop (fourPages page3_unrated) (excludeMap_of [] (\<lambda>m. False))
          ''https://letterboxd.com/ann/films/by/member-rating/'' [] []
        = Some (fst (foldl (getRatedMovies_each (excludeMap_of [] (\<lambda>m. False)))
                      (fst (foldl (getRatedMovies_each (excludeMap_of [] (\<lambda>m. False))) ([], False)
                              (posters (page [ratedPoster ''/film/a/'' ''rating rated-8''] (Some ''/ann/p2'')))),
                       False)
                      (posters (page [ratedPoster ''/film/b/'' ''rating rated-6''] (Some ''/ann/p3'')))),
                [''https://letterboxd.com/ann/films/by/member-rating/'', ''https://letterboxd.com/ann/p2'',
                 ''https://letterboxd.com/ann/p3''])"
    using getRatedMovies_stops_at_unrated_page
      [where net = "fourPages page3_unrated" and excludeMap = "excludeMap_of [] (\<lambda>m. False)"
        and ?url1.0 = "''https://letterboxd.com/ann/films/by/member-rating/''"
        and ?reqs0.0 = "[]" and ?movies0.0 = "[]"
        and ?doc1.0 = "page [ratedPoster ''/film/a/'' ''rating rated-8''] (Some ''/ann/p2'')"
        and ?reqs1.0 = "[''https://letterboxd.com/ann/films/by/member-rating/'']"
        and ?next1.0 = "''/ann/p2''"
        and ?doc2.0 = "page [ratedPoster ''/film/b/'' ''rating rated-6''] (Some ''/ann/p3'')"
        and ?reqs2.0 = "[''https://letterboxd.com/ann/films/by/member-rating/'',
                          ''https://letterboxd.com/ann/p2'']"
        and ?next2.0 = "''/ann/p3''"
        and ?doc3.0 = page3_unrated
        and ?reqs3.0 = "[''https://letterboxd.com/ann/films/by/member-rating/'',
                          ''https://letterboxd.com/ann/p2'', ''https://letterboxd.com/ann/p3'']"
        and ?next3.0 = "''/ann/p4''"]
      crawl_unrated_pages rated nexts
    by blast
  then show ?thesis
    using nexts
    by (simp add: getRatedMovies_def page_def getRatedMovies_each_def ratedPoster_def Split_def
        ReplaceAll_def Atoi_def isDigit_def Let_def)
qed

text \<open>
  Claim C6 as stated fails: a page from which no movie is collected does not end the
  crawl when it has a rated entry. In the first run the only entry of page 3 has a rating
  element without a rating, in the second its movie is excluded: no movie comes from
  page 3, yet page 4 is fetched and its movie collected.
\<close>

theorem getRatedMovies_zero_items_counterexample:
  "foldl (getRatedMovies_each (excludeMap_of [] (\<lambda>m. False))) ([], False) (posters page3_unparsed)
     = ([], True)
   \<and> paginationNext page3_unparsed = Some ''/ann/p4''
   \<and> getRatedMovies (fourPages page3_unparsed) ''ann'' [] [] =
     Some ([\<lparr>Movie.URL = ''/film/a/'', Rating = 8\<rparr>, \<lparr>Movie.URL = ''/film/b/'', Rating = 6\<rparr>,
            \<lparr>Movie.URL = ''/film/d/'', Rating = 4\<rparr>],
           [''https://letterboxd.com/ann/films/by/member-rating/'', ''https://letterboxd.com/ann/p2'',
            ''https://letterboxd.com/ann/p3'', ''https://letterboxd.com/ann/p4''])
   \<and> foldl (getRatedMovies_each (excludeMap_of [''/film/c/''] (\<lambda>m. False))) ([], False)
         (posters page3_excluded)
     = ([], True)
   \<and> getRatedMovies (fourPages page3_excluded) ''ann'' [''/film/c/''] [] =
     Some ([\<lparr>Movie.URL = ''/film/a/'', Rating = 8\<rparr>, \<lparr>Movie.URL = ''/film/b/'', Rating = 6\<rparr>,
            \<lparr>Movie.URL = ''/film/d/'', Rating = 4\<rparr>],
           [''https://letterboxd.com/ann/films/by/member-rating/'', ''https://letterboxd.com/ann/p2'',
            ''https://letterboxd.com/ann/p3'', ''https://letterboxd.com/ann/p4''])"
  by (simp add: getRatedMovies_def getRatedMovies_loop.simps getPage_ok fourPages_def page_def
      page3_unparsed_def page3_excluded_def
      getRatedMovies_each_def ratedPoster_def Split_def ReplaceAll_def Atoi_def isDigit_def Let_def)

text \<open>
  Claim C9. Whatever the networks of the workers and the order of arrival, when
  \<open>collectMoviesParallel\<close> returns, no movie of its result has a key among
  \<open>excludeMovies\<close>.
\<close>

theorem collectMoviesParallel_excludes:
  assumes "collectMoviesParallel nets arrival friends excludeMovies = Some allMovies"
  shows "\<forall>m\<in>set allMovies. Movie.URL m \<notin> set excludeMovies"
proof (rule collectMoviesParallel_recv_all [OF assms [unfolded collectMoviesParallel_def]])
  show "\<forall>m\<in>set []. Movie.URL m \<notin> set excludeMovies"
    by simp
next
  fix movies m
  assume msg: "Some movies \<in> set (map (\<lambda>w. map_option fst
        (getRatedMovies (nets w) (friends ! w) excludeMovies [])) arrival)"
    and m: "m \<in> set movies"
  from msg obtain w
    where "Some movies = map_option fst (getRatedMovies (nets w) (friends ! w) excludeMovies [])"
    unfolding set_map image_iff by blast
  then obtain res where res: "getRatedMovies (nets w) (friends ! w) excludeMovies [] = Some res"
    and f: "movies = fst res"
    by (cases "getRatedMovies (nets w) (friends ! w) excludeMovies []") auto
  show "Movie.URL m \<notin> set excludeMovies"
    using getRatedMovies_excluded [OF res] m f by blast
qed

theorem collectMoviesParallel_excludes_witness:
  "collectMoviesParallel (\<lambda>w. if w = 0 then annNet else downNet) [1, 0] [''ann'', ''bob''] [''/film/x/'']
     = Some [\<lparr>Movie.URL = ''/film/y/'', Rating = 6\<rparr>]
   \<and> Movie.URL \<lparr>Movie.URL = ''/film/y/'', Rating = 6\<rparr> \<notin> set [''/film/x/'']"
proof -
  have run: "collectMoviesParallel (\<lambda>w. if w = 0 then annNet else downNet) [1, 0] [''ann'', ''bob'']
      [''/film/x/''] = Some [\<lparr>Movie.URL = ''/film/y/'', Rating = 6\<rparr>]"
    by (simp add: collectMoviesParallel_def getRatedMovies_def getRatedMovies_loop.simps
        getPage_downNet getPage_ok annNet_def page_def
        getRatedMovies_each_def ratedPoster_def Split_def ReplaceAll_def Atoi_def isDigit_def Let_def)
  show ?thesis
    using collectMoviesParallel_excludes [OF run] run by simp
qed

end
